theory Spec2Isabelle
  imports Main "HOL-Library.Multiset"
begin

section \<open>The redaction engine of pkg/redact/redact.go\<close>

text \<open>
  Go strings and byte slices are sequences of bytes, and so are HOL strings
  (\<^typ>\<open>char list\<close>). Go's \<open>int\<close> values that are formatted (\<open>%d\<close>) are
  \<^typ>\<open>int\<close>; loop counters that start at zero and only count up are \<^typ>\<open>nat\<close>.
  A Go result pair \<open>(x, error)\<close> is a sum \<open>error + 'a\<close> where every failing
  return of the source is \<open>return nil, err\<close>, and a literal pair where the
  source returns a value next to the error.
\<close>

subsection \<open>Errors\<close>

text \<open>
  The context that \<open>errors.Wrap\<close> and \<open>errors.Wrapf\<close> add to an error, one
  constructor for each call in the file, with the values that the format string
  interpolates.
\<close>

datatype wrap_context =
    BuildCustomRedactors
  | RedactorContext string
  | MultilineRedactorContext string string
  | InvalidFileGlob string
  | InvalidFileGlobAt nat string

datatype error =
    EOF
  | External string
  | Wrap error wrap_context

subsection \<open>Formatting\<close>

abbreviation BS :: string where
  "BS \<equiv> [CHR 0x5C]"

definition MASK_TEXT :: string where
  "MASK_TEXT = ''***HIDDEN***''"

definition digit :: "nat \<Rightarrow> char" where
  "digit n = ''0123456789'' ! n"

text \<open>The verb \<open>%d\<close> of \<open>fmt.Sprintf\<close>: decimal digits, with a minus sign below zero.\<close>

function decimal :: "nat \<Rightarrow> string" where
  "decimal n = (if n < 10 then [digit n] else decimal (n div 10) @ [digit (n mod 10)])"
  by pat_completeness auto
termination
  by (relation "measure id") auto

declare decimal.simps [simp del]

definition fmt_d :: "int \<Rightarrow> string" where
  "fmt_d i = (if i < 0 then ''-'' @ decimal (nat (- i)) else decimal (nat i))"

subsection \<open>Redactor names\<close>

text \<open>
  \<open>redactorName\<close>. The verb \<open>%q\<close> (Go's \<open>strconv.Quote\<close>) belongs to the Go
  standard library; it is the parameter \<open>quote\<close>.
\<close>

definition redactorName ::
  "(string \<Rightarrow> string) \<Rightarrow> int \<Rightarrow> int \<Rightarrow> string \<Rightarrow> string \<Rightarrow> string \<Rightarrow> string" where
  "redactorName quote redactorNum withinRedactorNum redactorName' redactorType redactorLiteral =
     (if redactorName' \<noteq> '''' then redactorName' @ ''-'' @ fmt_d withinRedactorNum
      else if redactorLiteral = '''' then
        ''unnamed-'' @ fmt_d redactorNum @ ''.'' @ fmt_d withinRedactorNum @ ''-'' @ redactorType
      else redactorType @ ''.'' @ fmt_d withinRedactorNum @ ''-'' @ quote redactorLiteral)"

subsection \<open>Replacement templates\<close>

text \<open>
  Of a compiled \<open>*regexp.Regexp\<close> the file uses the expression it was compiled
  from and \<open>SubexpNames()\<close>: the names of the capture groups, the entry at index 0
  standing for the whole match.
\<close>

record regexp =
  expr :: string
  SubexpNames :: "string list"

text \<open>
  The loop of \<open>getReplacementPattern\<close> over \<open>re.SubexpNames()\<close>, with the index
  \<open>i\<close> and the accumulator \<open>substStr\<close>.
\<close>

fun getReplacementPattern_loop :: "string \<Rightarrow> nat \<Rightarrow> string list \<Rightarrow> string \<Rightarrow> string" where
  "getReplacementPattern_loop maskText i [] substStr = substStr"
| "getReplacementPattern_loop maskText i (name # names) substStr =
     (if i = 0 then getReplacementPattern_loop maskText (i + 1) names substStr
      else if name = '''' then
        getReplacementPattern_loop maskText (i + 1) names (substStr @ ''$'' @ fmt_d (int i))
      else if name = ''mask'' then
        getReplacementPattern_loop maskText (i + 1) names (substStr @ maskText)
      else if name = ''drop'' then
        getReplacementPattern_loop maskText (i + 1) names substStr
      else
        getReplacementPattern_loop maskText (i + 1) names (substStr @ ''${'' @ name @ ''}''))"

definition getReplacementPattern :: "regexp \<Rightarrow> string \<Rightarrow> string" where
  "getReplacementPattern re maskText = getReplacementPattern_loop maskText 0 (SubexpNames re) ''''"

text \<open>
  The template as the specification words it: what one capture group contributes,
  and the concatenation of the contributions of the groups after group 0.
\<close>

definition group_template :: "string \<Rightarrow> nat \<times> string \<Rightarrow> string" where
  "group_template maskText g =
     (if snd g = '''' then ''$'' @ fmt_d (int (fst g))
      else if snd g = ''mask'' then maskText
      else if snd g = ''drop'' then ''''
      else ''${'' @ snd g @ ''}'')"

definition replacement_template :: "string list \<Rightarrow> string \<Rightarrow> string" where
  "replacement_template names maskText =
     concat (map (group_template maskText) (tl (enumerate 0 names)))"

subsection \<open>Reading logical lines\<close>

text \<open>
  \<open>bufio.Reader.ReadLine\<close> belongs to the Go standard library. A reader is a
  state \<open>'s\<close> with a function \<open>ReadLine\<close> that returns either an error or a
  fragment with the flag \<open>isPrefix\<close>, and the next state. The loop of
  \<open>readLine\<close> has no bound of its own: it ends when \<open>ReadLine\<close> returns an error
  or a fragment that is not a prefix, so it is a partial function, \<open>None\<close> standing
  for a loop that never ends.
\<close>

partial_function (option) readLine_loop ::
  "('s \<Rightarrow> (error + string \<times> bool) \<times> 's) \<Rightarrow> string \<Rightarrow> 's \<Rightarrow> ((string \<times> error option) \<times> 's) option" where
  "readLine_loop ReadLine completeLine r =
     (case ReadLine r of
        (Inl err, r') \<Rightarrow> Some (('''', Some err), r')
      | (Inr (line, isPrefix), r') \<Rightarrow>
          (let completeLine = completeLine @ line in
           if \<not> isPrefix then Some ((completeLine, None), r')
           else readLine_loop ReadLine completeLine r'))"

definition readLine ::
  "('s \<Rightarrow> (error + string \<times> bool) \<times> 's) \<Rightarrow> 's \<Rightarrow> ((string \<times> error option) \<times> 's) option" where
  "readLine ReadLine r = readLine_loop ReadLine [] r"

text \<open>
  \<open>prefix_reads ReadLine r fs\<close>: from the state \<open>r\<close>, the next calls of \<open>ReadLine\<close>
  return the fragments \<open>fs\<close>, each one flagged as a prefix; the result is the state
  after them.
\<close>

fun prefix_reads ::
  "('s \<Rightarrow> (error + string \<times> bool) \<times> 's) \<Rightarrow> 's \<Rightarrow> string list \<Rightarrow> 's option" where
  "prefix_reads ReadLine r [] = Some r"
| "prefix_reads ReadLine r (f # fs) =
     (case ReadLine r of
        (Inr (line, isPrefix), r') \<Rightarrow>
          (if isPrefix \<and> line = f then prefix_reads ReadLine r' fs else None)
      | (Inl err, r') \<Rightarrow> None)"

text \<open>
  A reader over a fixed, finite script of results: the results of the coming calls,
  and the error that every call returns once they are used up.
\<close>

fun scripted_ReadLine ::
  "(error + string \<times> bool) list \<times> error \<Rightarrow> (error + string \<times> bool) \<times> ((error + string \<times> bool) list \<times> error)" where
  "scripted_ReadLine ([], e) = (Inl e, ([], e))"
| "scripted_ReadLine (x # xs, e) = (x, (xs, e))"

subsection \<open>The ledger of redactions\<close>

record Redaction =
  RedactorName :: string
  CharactersRemoved :: int
  Line :: int
  File :: string

text \<open>A Go \<open>map[string][]Redaction\<close>; reading a key that is absent gives the nil slice.\<close>

type_synonym redaction_index = "string \<rightharpoonup> Redaction list"

definition entries :: "redaction_index \<Rightarrow> string \<Rightarrow> Redaction list" where
  "entries m k = (case m k of None \<Rightarrow> [] | Some rs \<Rightarrow> rs)"

record RedactionList =
  ByRedactor :: redaction_index
  ByFile :: redaction_index

text \<open>The value that \<open>init\<close> and \<open>ResetRedactionList\<close> assign to \<open>allRedactions\<close>.\<close>

definition empty_RedactionList :: RedactionList where
  "empty_RedactionList = \<lparr>ByRedactor = Map.empty, ByFile = Map.empty\<rparr>"

text \<open>
  The two assignments in the goroutine that \<open>addRedaction\<close> starts, which run
  one after the other while the goroutine holds \<open>redactionListMut\<close>.
\<close>

definition append_ByRedactor :: "RedactionList \<Rightarrow> Redaction \<Rightarrow> RedactionList" where
  "append_ByRedactor allRedactions redaction =
     allRedactions\<lparr>ByRedactor := (ByRedactor allRedactions)
       (RedactorName redaction \<mapsto>
          entries (ByRedactor allRedactions) (RedactorName redaction) @ [redaction])\<rparr>"

definition append_ByFile :: "RedactionList \<Rightarrow> Redaction \<Rightarrow> RedactionList" where
  "append_ByFile allRedactions redaction =
     allRedactions\<lparr>ByFile := (ByFile allRedactions)
       (File redaction \<mapsto> entries (ByFile allRedactions) (File redaction) @ [redaction])\<rparr>"

definition append_redaction :: "RedactionList \<Rightarrow> Redaction \<Rightarrow> RedactionList" where
  "append_redaction allRedactions redaction =
     append_ByFile (append_ByRedactor allRedactions redaction) redaction"

text \<open>All the records of an index, with their multiplicities.\<close>

definition records_of :: "redaction_index \<Rightarrow> Redaction multiset" where
  "records_of m = (\<Sum>k \<in> dom m. mset (entries m k))"

text \<open>A snapshot holds a record when both indices list it under the record's own keys.\<close>

definition holds :: "RedactionList \<Rightarrow> Redaction \<Rightarrow> bool" where
  "holds l r \<longleftrightarrow>
     r \<in> set (entries (ByRedactor l) (RedactorName r)) \<and> r \<in> set (entries (ByFile l) (File r))"

subsection \<open>The ledger under concurrency\<close>

text \<open>
  The global state of the package is \<open>allRedactions\<close>, the mutex
  \<open>redactionListMut\<close> and the wait group \<open>pendingRedactions\<close>. Every call of
  \<open>addRedaction\<close> adds one to the wait group and starts a goroutine; the goroutines
  and the callers of \<open>GetRedactionList\<close> run interleaved, one statement at a time.
  A goroutine is the record it was started with and the point it has reached:
  started, holding the lock, after the first assignment, after the second, after the
  deferred \<open>Done\<close>, and after the deferred \<open>Unlock\<close>.
\<close>

datatype goroutine_pc =
    Started
  | Locked
  | AppendedByRedactor
  | AppendedByFile
  | DoneCalled
  | Finished

text \<open>
  A call of \<open>GetRedactionList\<close>: inside \<open>Wait\<close>, past it, holding the lock, and
  returned with a value.
\<close>

datatype call_pc =
    Waiting
  | Waited
  | Holding
  | Returned RedactionList

record state =
  allRedactions :: RedactionList
  redactionListMut :: bool
  pendingRedactions :: int
  goroutines :: "(Redaction \<times> goroutine_pc) list"
  calls :: "call_pc list"

definition initial :: state where
  "initial = \<lparr>allRedactions = empty_RedactionList, redactionListMut = False,
     pendingRedactions = 0, goroutines = [], calls = []\<rparr>"

text \<open>
  The steps. \<open>AddRedaction r\<close> is the body of \<open>addRedaction\<close> in the caller:
  \<open>Add(1)\<close> and the \<open>go\<close> statement. The steps of goroutine \<open>g\<close> and of call
  \<open>c\<close> name it by its position in the order of creation. \<open>GetReturn\<close> evaluates
  the result \<open>allRedactions\<close> and runs the deferred \<open>Unlock\<close>.
  \<open>ResetRedactionList\<close> is its whole critical section, one assignment, taken when
  the mutex is free.
\<close>

datatype event =
    AddRedaction Redaction
  | GoLock nat
  | GoAppendByRedactor nat
  | GoAppendByFile nat
  | GoDone nat
  | GoUnlock nat
  | GetCall
  | GetWait nat
  | GetLock nat
  | GetReturn nat
  | ResetRedactionList

definition goroutine_at :: "state \<Rightarrow> nat \<Rightarrow> goroutine_pc \<Rightarrow> bool" where
  "goroutine_at s g pc \<longleftrightarrow> g < length (goroutines s) \<and> snd (goroutines s ! g) = pc"

definition call_at :: "state \<Rightarrow> nat \<Rightarrow> call_pc \<Rightarrow> bool" where
  "call_at s c pc \<longleftrightarrow> c < length (calls s) \<and> calls s ! c = pc"

definition move_goroutine :: "nat \<Rightarrow> goroutine_pc \<Rightarrow> state \<Rightarrow> state" where
  "move_goroutine g pc s = s\<lparr>goroutines := (goroutines s)[g := (fst (goroutines s ! g), pc)]\<rparr>"

definition move_call :: "nat \<Rightarrow> call_pc \<Rightarrow> state \<Rightarrow> state" where
  "move_call c pc s = s\<lparr>calls := (calls s)[c := pc]\<rparr>"

fun step :: "event \<Rightarrow> state \<Rightarrow> state option" where
  "step (AddRedaction redaction) s =
     Some (s\<lparr>pendingRedactions := pendingRedactions s + 1,
              goroutines := goroutines s @ [(redaction, Started)]\<rparr>)"
| "step (GoLock g) s =
     (if goroutine_at s g Started \<and> \<not> redactionListMut s
      then Some (move_goroutine g Locked (s\<lparr>redactionListMut := True\<rparr>)) else None)"
| "step (GoAppendByRedactor g) s =
     (if goroutine_at s g Locked
      then Some (move_goroutine g AppendedByRedactor
        (s\<lparr>allRedactions := append_ByRedactor (allRedactions s) (fst (goroutines s ! g))\<rparr>))
      else None)"
| "step (GoAppendByFile g) s =
     (if goroutine_at s g AppendedByRedactor
      then Some (move_goroutine g AppendedByFile
        (s\<lparr>allRedactions := append_ByFile (allRedactions s) (fst (goroutines s ! g))\<rparr>))
      else None)"
| "step (GoDone g) s =
     (if goroutine_at s g AppendedByFile
      then Some (move_goroutine g DoneCalled (s\<lparr>pendingRedactions := pendingRedactions s - 1\<rparr>))
      else None)"
| "step (GoUnlock g) s =
     (if goroutine_at s g DoneCalled
      then Some (move_goroutine g Finished (s\<lparr>redactionListMut := False\<rparr>)) else None)"
| "step GetCall s = Some (s\<lparr>calls := calls s @ [Waiting]\<rparr>)"
| "step (GetWait c) s =
     (if call_at s c Waiting \<and> pendingRedactions s = 0
      then Some (move_call c Waited s) else None)"
| "step (GetLock c) s =
     (if call_at s c Waited \<and> \<not> redactionListMut s
      then Some (move_call c Holding (s\<lparr>redactionListMut := True\<rparr>)) else None)"
| "step (GetReturn c) s =
     (if call_at s c Holding
      then Some (move_call c (Returned (allRedactions s)) (s\<lparr>redactionListMut := False\<rparr>))
      else None)"
| "step ResetRedactionList s =
     (if \<not> redactionListMut s then Some (s\<lparr>allRedactions := empty_RedactionList\<rparr>) else None)"

text \<open>A run: the steps of a list of events in order; \<open>None\<close> when one of them cannot be taken.\<close>

fun run :: "event list \<Rightarrow> state \<Rightarrow> state option" where
  "run [] s = Some s"
| "run (e # es) s = (case step e s of None \<Rightarrow> None | Some s' \<Rightarrow> run es s')"

text \<open>The goroutines that have not yet called \<open>Done\<close>.\<close>

definition not_done :: "Redaction \<times> goroutine_pc \<Rightarrow> nat" where
  "not_done g = (if snd g = DoneCalled \<or> snd g = Finished then 0 else 1)"

definition outstanding :: "state \<Rightarrow> nat" where
  "outstanding s = sum_list (map not_done (goroutines s))"

text \<open>
  What call number \<open>c\<close> of \<open>GetRedactionList\<close> has returned after the run of
  \<open>es\<close> from the initial state, and the number of calls that a list of events starts.
\<close>

definition GetCalls :: "event list \<Rightarrow> nat" where
  "GetCalls es = length (filter (\<lambda>e. e = GetCall) es)"

definition returned :: "event list \<Rightarrow> nat \<Rightarrow> RedactionList option" where
  "returned es c =
     (case run es initial of
        None \<Rightarrow> None
      | Some s \<Rightarrow>
          (if c < length (calls s)
           then (case calls s ! c of Returned v \<Rightarrow> Some v | _ \<Rightarrow> None)
           else None))"

text \<open>
  The invariants of the runs. The wait group counts the goroutines that have not called
  \<open>Done\<close>. The record of goroutine \<open>g\<close> is in an index from the assignment on.
  A call that is past \<open>Wait\<close> has seen goroutine \<open>g\<close> past its \<open>Done\<close>, and what
  the call returns holds the record.
\<close>

definition wg_inv :: "state \<Rightarrow> bool" where
  "wg_inv s \<longleftrightarrow> pendingRedactions s = int (outstanding s)"

definition appended_ByRedactor :: "goroutine_pc \<Rightarrow> bool" where
  "appended_ByRedactor pc \<longleftrightarrow> pc \<noteq> Started \<and> pc \<noteq> Locked"

definition appended_ByFile :: "goroutine_pc \<Rightarrow> bool" where
  "appended_ByFile pc \<longleftrightarrow> pc = AppendedByFile \<or> pc = DoneCalled \<or> pc = Finished"

definition is_done :: "goroutine_pc \<Rightarrow> bool" where
  "is_done pc \<longleftrightarrow> pc = DoneCalled \<or> pc = Finished"

definition recorded :: "nat \<Rightarrow> Redaction \<Rightarrow> state \<Rightarrow> bool" where
  "recorded g r s \<longleftrightarrow>
     g < length (goroutines s) \<and> fst (goroutines s ! g) = r \<and>
     (appended_ByRedactor (snd (goroutines s ! g)) \<longrightarrow>
        r \<in> set (entries (ByRedactor (allRedactions s)) (RedactorName r))) \<and>
     (appended_ByFile (snd (goroutines s ! g)) \<longrightarrow>
        r \<in> set (entries (ByFile (allRedactions s)) (Redaction.File r)))"

definition snapshot_ok :: "nat \<Rightarrow> nat \<Rightarrow> Redaction \<Rightarrow> state \<Rightarrow> bool" where
  "snapshot_ok c g r s \<longleftrightarrow>
     c < length (calls s) \<and>
     (calls s ! c = Waiting \<or>
      (is_done (snd (goroutines s ! g)) \<and> (\<forall>v. calls s ! c = Returned v \<longrightarrow> holds v r)))"

text \<open>
  The threads that hold the mutex: a goroutine from its \<open>Lock\<close> up to its
  \<open>Unlock\<close>, a call of \<open>GetRedactionList\<close> from its \<open>Lock\<close> up to its return.
  The mutex is held exactly when there is one such thread, and there is never more
  than one. A goroutine between its two assignments has its record in \<open>ByRedactor\<close>
  and not yet in \<open>ByFile\<close>.
\<close>

definition holding_goroutine :: "Redaction \<times> goroutine_pc \<Rightarrow> nat" where
  "holding_goroutine g =
     (if snd g = Locked \<or> snd g = AppendedByRedactor \<or> snd g = AppendedByFile \<or> snd g = DoneCalled
      then 1 else 0)"

definition holding_call :: "call_pc \<Rightarrow> nat" where
  "holding_call c = (if c = Holding then 1 else 0)"

definition holders :: "state \<Rightarrow> nat" where
  "holders s = sum_list (map holding_goroutine (goroutines s)) + sum_list (map holding_call (calls s))"

definition mutex_inv :: "state \<Rightarrow> bool" where
  "mutex_inv s \<longleftrightarrow> holders s = (if redactionListMut s then 1 else 0)"

definition half_appended :: "Redaction \<times> goroutine_pc \<Rightarrow> Redaction multiset" where
  "half_appended g = (if snd g = AppendedByRedactor then {#fst g#} else {#})"

definition half_sum :: "state \<Rightarrow> Redaction multiset" where
  "half_sum s = sum_list (map half_appended (goroutines s))"

definition ledger_ok :: "state \<Rightarrow> bool" where
  "ledger_ok s \<longleftrightarrow>
     finite (dom (ByRedactor (allRedactions s))) \<and> finite (dom (ByFile (allRedactions s))) \<and>
     records_of (ByRedactor (allRedactions s)) = records_of (ByFile (allRedactions s)) + half_sum s"

definition sample_redaction :: Redaction where
  "sample_redaction =
     \<lparr>RedactorName = ''regex-0'', CharactersRemoved = 7, Line = 3, Redaction.File = ''a.log''\<rparr>"

definition other_redaction :: Redaction where
  "other_redaction =
     \<lparr>RedactorName = ''literal-0'', CharactersRemoved = 3, Line = 2, Redaction.File = ''a.log''\<rparr>"

subsection \<open>What lies outside the file\<close>

text \<open>
  An \<open>io.Reader\<close>, as far as \<open>ioutil.ReadAll\<close> observes it: the bytes it yields, and
  the error that ends it, \<open>None\<close> for a plain end of stream (\<open>io.EOF\<close>, which
  \<open>ReadAll\<close> does not report).
\<close>

type_synonym reader = "string \<times> error option"

definition NewReader :: "string \<Rightarrow> reader" where
  "NewReader input = (input, None)"

definition ReadAll :: "reader \<Rightarrow> string \<times> error option" where
  "ReadAll r = r"

text \<open>
  Modelled from the spec: the redactor types, whose declarations are in files of the
  package that are not among the sources (the single-line, multi-line, literal and YAML
  redactors). Each one carries what its constructor is given: the compiled patterns or
  the literal or the YAML path, the mask text, the file path and the name.
\<close>

datatype Redactor =
    SingleLineRedactor regexp string string string
  | MultiLineRedactor regexp regexp string string string
  | literalRedactor string string string
  | YamlRedactor string string string

fun redactName :: "Redactor \<Rightarrow> string" where
  "redactName (SingleLineRedactor re maskText filePath name) = name"
| "redactName (MultiLineRedactor re1 re2 maskText filePath name) = name"
| "redactName (literalRedactor matchString filePath name) = name"
| "redactName (YamlRedactor maskPath filePath name) = name"

text \<open>
  The libraries that the file calls and whose code is not the repository's:
  \<open>regexp.Compile\<close>, \<open>glob.Compile\<close> of gobwas/glob (a compiled glob is its
  \<open>Match\<close> method), the verb \<open>%q\<close>, and the method \<open>Redact\<close> of each redactor,
  which maps a reader to a reader.
\<close>

record externals =
  regexp_Compile :: "string \<Rightarrow> error + regexp"
  glob_Compile :: "string \<Rightarrow> char \<Rightarrow> error + (string \<Rightarrow> bool)"
  quote :: "string \<Rightarrow> string"
  Redact_method :: "Redactor \<Rightarrow> reader \<Rightarrow> reader"

text \<open>
  Modelled from the spec: the constructors \<open>NewSingleLineRedactor\<close>,
  \<open>NewMultiLineRedactor\<close>, \<open>literalString\<close> and \<open>NewYamlRedactor\<close>, which are in
  the files that are not among the sources. A regex redactor fails when its pattern is
  not a valid regular expression; for a multi-line redactor the selector and the
  redactor patterns are compiled one after the other and each must be valid.
\<close>

definition NewSingleLineRedactor ::
  "externals \<Rightarrow> string \<Rightarrow> string \<Rightarrow> string \<Rightarrow> string \<Rightarrow> error + Redactor" where
  "NewSingleLineRedactor ext re maskText path name =
     (case regexp_Compile ext re of
        Inl err \<Rightarrow> Inl err
      | Inr compiled \<Rightarrow> Inr (SingleLineRedactor compiled maskText path name))"

definition NewMultiLineRedactor ::
  "externals \<Rightarrow> string \<Rightarrow> string \<Rightarrow> string \<Rightarrow> string \<Rightarrow> string \<Rightarrow> error + Redactor" where
  "NewMultiLineRedactor ext re1 re2 maskText path name =
     (case regexp_Compile ext re1 of
        Inl err \<Rightarrow> Inl err
      | Inr compiled1 \<Rightarrow>
          (case regexp_Compile ext re2 of
             Inl err \<Rightarrow> Inl err
           | Inr compiled2 \<Rightarrow> Inr (MultiLineRedactor compiled1 compiled2 maskText path name)))"

definition literalString :: "string \<Rightarrow> string \<Rightarrow> string \<Rightarrow> Redactor" where
  "literalString match path name = literalRedactor match path name"

definition NewYamlRedactor :: "string \<Rightarrow> string \<Rightarrow> string \<Rightarrow> Redactor" where
  "NewYamlRedactor yamlPath filePath name = YamlRedactor yamlPath filePath name"

subsection \<open>Custom rules\<close>

text \<open>
  The type \<open>troubleshootv1beta1.Redact\<close> with the fields that the file reads. A
  pointer to it may be nil: an entry of the rule list is an \<open>option\<close>.
\<close>

record MultiLine =
  Selector :: string
  Redactor :: string

record Redact_rule =
  Name :: string
  File :: string
  Files :: "string list"
  Regex :: "string list"
  Values :: "string list"
  MultiLine :: "MultiLine list"
  Yaml :: "string list"

text \<open>
  \<open>redactMatchesPath\<close>. The second loop compiles \<open>redact.Files\<close> and extends
  \<open>globs\<close>; the third returns at the first glob that matches. The result is the Go
  pair: on a glob that does not compile, \<open>false\<close> and the wrapped error.
\<close>

fun compile_Files ::
  "externals \<Rightarrow> nat \<Rightarrow> string list \<Rightarrow> (string \<Rightarrow> bool) list \<Rightarrow> error + (string \<Rightarrow> bool) list" where
  "compile_Files ext i [] globs = Inr globs"
| "compile_Files ext i (fileGlobString # rest) globs =
     (case glob_Compile ext fileGlobString (CHR ''/'') of
        Inl err \<Rightarrow> Inl (Wrap err (InvalidFileGlobAt i fileGlobString))
      | Inr newGlob \<Rightarrow> compile_Files ext (i + 1) rest (globs @ [newGlob]))"

fun match_globs :: "string \<Rightarrow> (string \<Rightarrow> bool) list \<Rightarrow> bool" where
  "match_globs path [] = False"
| "match_globs path (thisGlob # rest) = (if thisGlob path then True else match_globs path rest)"

definition redactMatchesPath :: "externals \<Rightarrow> string \<Rightarrow> Redact_rule \<Rightarrow> bool \<times> error option" where
  "redactMatchesPath ext path redact =
     (if File redact = '''' \<and> length (Files redact) = 0 then (True, None)
      else
        (case (if File redact \<noteq> ''''
               then (case glob_Compile ext (File redact) (CHR ''/'') of
                       Inl err \<Rightarrow> Inl (Wrap err (InvalidFileGlob (File redact)))
                     | Inr newGlob \<Rightarrow> Inr ([] @ [newGlob]))
               else Inr []) of
           Inl err \<Rightarrow> (False, Some err)
         | Inr globs \<Rightarrow>
             (case compile_Files ext 0 (Files redact) globs of
                Inl err \<Rightarrow> (False, Some err)
              | Inr globs \<Rightarrow> (match_globs path globs, None))))"

text \<open>
  \<open>buildAdditionalRedactors\<close>: the four inner loops over the entries of one rule, each
  with the slice \<open>additionalRedactors\<close> as accumulator; \<open>withinRedactNum\<close> is the
  variable that the source declares before them and passes to \<open>redactorName\<close>.
\<close>

fun Regex_loop ::
  "externals \<Rightarrow> string \<Rightarrow> nat \<Rightarrow> int \<Rightarrow> string \<Rightarrow> string list \<Rightarrow> Redactor list \<Rightarrow> error + Redactor list" where
  "Regex_loop ext path i withinRedactNum name [] additionalRedactors = Inr additionalRedactors"
| "Regex_loop ext path i withinRedactNum name (re # rest) additionalRedactors =
     (case NewSingleLineRedactor ext re MASK_TEXT path
             (redactorName (quote ext) (int i) withinRedactNum name ''regex'' '''') of
        Inl err \<Rightarrow> Inl (Wrap err (RedactorContext re))
      | Inr r \<Rightarrow> Regex_loop ext path i withinRedactNum name rest (additionalRedactors @ [r]))"

fun Values_loop ::
  "externals \<Rightarrow> string \<Rightarrow> nat \<Rightarrow> int \<Rightarrow> string \<Rightarrow> string list \<Rightarrow> Redactor list \<Rightarrow> Redactor list" where
  "Values_loop ext path i withinRedactNum name [] additionalRedactors = additionalRedactors"
| "Values_loop ext path i withinRedactNum name (literal # rest) additionalRedactors =
     Values_loop ext path i withinRedactNum name rest
       (additionalRedactors @
        [literalString literal path
           (redactorName (quote ext) (int i) withinRedactNum name ''literal'' '''')])"

fun MultiLine_loop ::
  "externals \<Rightarrow> string \<Rightarrow> nat \<Rightarrow> int \<Rightarrow> string \<Rightarrow> MultiLine list \<Rightarrow> Redactor list \<Rightarrow> error + Redactor list" where
  "MultiLine_loop ext path i withinRedactNum name [] additionalRedactors = Inr additionalRedactors"
| "MultiLine_loop ext path i withinRedactNum name (re # rest) additionalRedactors =
     (case NewMultiLineRedactor ext (Selector re) (Redactor re) MASK_TEXT path
             (redactorName (quote ext) (int i) withinRedactNum name ''multiLine'' '''') of
        Inl err \<Rightarrow> Inl (Wrap err (MultilineRedactorContext (Selector re) (Redactor re)))
      | Inr r \<Rightarrow> MultiLine_loop ext path i withinRedactNum name rest (additionalRedactors @ [r]))"

fun Yaml_loop ::
  "externals \<Rightarrow> string \<Rightarrow> nat \<Rightarrow> int \<Rightarrow> string \<Rightarrow> string list \<Rightarrow> Redactor list \<Rightarrow> Redactor list" where
  "Yaml_loop ext path i withinRedactNum name [] additionalRedactors = additionalRedactors"
| "Yaml_loop ext path i withinRedactNum name (yaml # rest) additionalRedactors =
     Yaml_loop ext path i withinRedactNum name rest
       (additionalRedactors @
        [NewYamlRedactor yaml path
           (redactorName (quote ext) (int i) withinRedactNum name ''yaml'' '''')])"

text \<open>
  The body of the outer loop for a rule that is not nil: \<open>Inl\<close> is a \<open>return nil, err\<close>,
  \<open>Inr\<close> the slice with which the loop goes on (unchanged after \<open>continue\<close>).
\<close>

definition redact_body ::
  "externals \<Rightarrow> string \<Rightarrow> nat \<Rightarrow> Redact_rule \<Rightarrow> Redactor list \<Rightarrow> error + Redactor list" where
  "redact_body ext path i redact additionalRedactors =
     (case redactMatchesPath ext path redact of
        (matches, Some err) \<Rightarrow> Inl err
      | (matches, None) \<Rightarrow>
          if \<not> matches then Inr additionalRedactors
          else
            (let withinRedactNum = 0 in
             case Regex_loop ext path i withinRedactNum (Name redact) (Regex redact)
                    additionalRedactors of
               Inl err \<Rightarrow> Inl err
             | Inr additionalRedactors \<Rightarrow>
                 (case MultiLine_loop ext path i withinRedactNum (Name redact) (MultiLine redact)
                         (Values_loop ext path i withinRedactNum (Name redact) (Values redact)
                            additionalRedactors) of
                    Inl err \<Rightarrow> Inl err
                  | Inr additionalRedactors \<Rightarrow>
                      Inr (Yaml_loop ext path i withinRedactNum (Name redact) (Yaml redact)
                             additionalRedactors))))"

fun redacts_loop ::
  "externals \<Rightarrow> string \<Rightarrow> nat \<Rightarrow> Redact_rule option list \<Rightarrow> Redactor list \<Rightarrow> error + Redactor list" where
  "redacts_loop ext path i [] additionalRedactors = Inr additionalRedactors"
| "redacts_loop ext path i (None # rest) additionalRedactors =
     redacts_loop ext path (i + 1) rest additionalRedactors"
| "redacts_loop ext path i (Some redact # rest) additionalRedactors =
     (case redact_body ext path i redact additionalRedactors of
        Inl err \<Rightarrow> Inl err
      | Inr additionalRedactors \<Rightarrow> redacts_loop ext path (i + 1) rest additionalRedactors)"

definition buildAdditionalRedactors ::
  "externals \<Rightarrow> string \<Rightarrow> Redact_rule option list \<Rightarrow> error + Redactor list" where
  "buildAdditionalRedactors ext path redacts = redacts_loop ext path 0 redacts []"

subsection \<open>The built-in redactors\<close>

text \<open>
  The two lists of \<open>getRedactors\<close>, the raw strings of the source byte for byte; \<open>BS\<close>
  is the backslash, which a string literal here cannot contain.
\<close>

definition singleLines :: "string list" where
  \<open>singleLines = [
     ''(?P<mask>'' @ BS @ ''b(?P<drop>25[0-5]|2[0-4][0-9]|[01]?[0-9][0-9]?)'' @ BS @ ''.(?P<drop>25[0-5]|2[0-4][0-9]|[01]?[0-9][0-9]?)'' @ BS @ ''.(?P<drop>25[0-5]|2[0-4][0-9]|[01]?[0-9][0-9]?)'' @ BS @ ''.(?P<drop>25[0-5]|2[0-4][0-9]|[01]?[0-9][0-9]?)'' @ BS @ ''b)'',
     ''(?i)('' @ BS @ BS @ BS @ ''"name'' @ BS @ BS @ BS @ ''":'' @ BS @ BS @ BS @ ''"[^'' @ BS @ ''"]*SECRET_?ACCESS_?KEY'' @ BS @ BS @ BS @ ''",'' @ BS @ BS @ BS @ ''"value'' @ BS @ BS @ BS @ ''":'' @ BS @ BS @ BS @ ''")(?P<mask>[^'' @ BS @ ''"]*)('' @ BS @ BS @ BS @ ''")'',
     ''(?i)('' @ BS @ BS @ BS @ ''"name'' @ BS @ BS @ BS @ ''":'' @ BS @ BS @ BS @ ''"[^'' @ BS @ ''"]*ACCESS_?KEY_?ID'' @ BS @ BS @ BS @ ''",'' @ BS @ BS @ BS @ ''"value'' @ BS @ BS @ BS @ ''":'' @ BS @ BS @ BS @ ''")(?P<mask>[^'' @ BS @ ''"]*)('' @ BS @ BS @ BS @ ''")'',
     ''(?i)('' @ BS @ BS @ BS @ ''"name'' @ BS @ BS @ BS @ ''":'' @ BS @ BS @ BS @ ''"[^'' @ BS @ ''"]*OWNER_?ACCOUNT'' @ BS @ BS @ BS @ ''",'' @ BS @ BS @ BS @ ''"value'' @ BS @ BS @ BS @ ''":'' @ BS @ BS @ BS @ ''")(?P<mask>[^'' @ BS @ ''"]*)('' @ BS @ BS @ BS @ ''")'',
     ''(?i)('' @ BS @ BS @ BS @ ''"name'' @ BS @ BS @ BS @ ''":'' @ BS @ BS @ BS @ ''"[^'' @ BS @ ''"]*password[^'' @ BS @ ''"]*'' @ BS @ BS @ BS @ ''",'' @ BS @ BS @ BS @ ''"value'' @ BS @ BS @ BS @ ''":'' @ BS @ BS @ BS @ ''")(?P<mask>[^'' @ BS @ ''"]*)('' @ BS @ BS @ BS @ ''")'',
     ''(?i)('' @ BS @ BS @ BS @ ''"name'' @ BS @ BS @ BS @ ''":'' @ BS @ BS @ BS @ ''"[^'' @ BS @ ''"]*token[^'' @ BS @ ''"]*'' @ BS @ BS @ BS @ ''",'' @ BS @ BS @ BS @ ''"value'' @ BS @ BS @ BS @ ''":'' @ BS @ BS @ BS @ ''")(?P<mask>[^'' @ BS @ ''"]*)('' @ BS @ BS @ BS @ ''")'',
     ''(?i)('' @ BS @ BS @ BS @ ''"name'' @ BS @ BS @ BS @ ''":'' @ BS @ BS @ BS @ ''"[^'' @ BS @ ''"]*database[^'' @ BS @ ''"]*'' @ BS @ BS @ BS @ ''",'' @ BS @ BS @ BS @ ''"value'' @ BS @ BS @ BS @ ''":'' @ BS @ BS @ BS @ ''")(?P<mask>[^'' @ BS @ ''"]*)('' @ BS @ BS @ BS @ ''")'',
     ''(?i)('' @ BS @ BS @ BS @ ''"name'' @ BS @ BS @ BS @ ''":'' @ BS @ BS @ BS @ ''"[^'' @ BS @ ''"]*user[^'' @ BS @ ''"]*'' @ BS @ BS @ BS @ ''",'' @ BS @ BS @ BS @ ''"value'' @ BS @ BS @ BS @ ''":'' @ BS @ BS @ BS @ ''")(?P<mask>[^'' @ BS @ ''"]*)('' @ BS @ BS @ BS @ ''")'',
     ''(?i)(https?|ftp)(:'' @ BS @ ''/'' @ BS @ ''/)(?P<mask>[^:'' @ BS @ ''"'' @ BS @ ''/]+){1}(:)(?P<mask>[^@'' @ BS @ ''"'' @ BS @ ''/]+){1}(?P<host>@[^:'' @ BS @ ''/'' @ BS @ ''s'' @ BS @ ''"]+){1}(?P<port>:['' @ BS @ ''d]+)?'',
     BS @ ''b(?P<mask>[^:'' @ BS @ ''"'' @ BS @ ''/]*){1}(:)(?P<mask>[^:'' @ BS @ ''"'' @ BS @ ''/]*){1}(@tcp'' @ BS @ ''()(?P<mask>[^:'' @ BS @ ''"'' @ BS @ ''/]*){1}(?P<port>:['' @ BS @ ''d]*)?('' @ BS @ '')'' @ BS @ ''/)(?P<mask>['' @ BS @ ''w'' @ BS @ ''d'' @ BS @ ''S-_]+){1}'' @ BS @ ''b'',
     ''(?i)(Data Source *= *)(?P<mask>[^'' @ BS @ '';]+)(;)'',
     ''(?i)(location *= *)(?P<mask>[^'' @ BS @ '';]+)(;)'',
     ''(?i)(User ID *= *)(?P<mask>[^'' @ BS @ '';]+)(;)'',
     ''(?i)(password *= *)(?P<mask>[^'' @ BS @ '';]+)(;)'',
     ''(?i)(Server *= *)(?P<mask>[^'' @ BS @ '';]+)(;)'',
     ''(?i)(Database *= *)(?P<mask>[^'' @ BS @ '';]+)(;)'',
     ''(?i)(Uid *= *)(?P<mask>[^'' @ BS @ '';]+)(;)'',
     ''(?i)(Pwd *= *)(?P<mask>[^'' @ BS @ '';]+)(;)''
  ]\<close>

definition doubleLines :: "(string \<times> string) list" where
  \<open>doubleLines = [
     (''(?i)"name": *"[^'' @ BS @ ''"]*SECRET_?ACCESS_?KEY[^'' @ BS @ ''"]*"'',
      ''(?i)("value": *")(?P<mask>.*[^'' @ BS @ ''"]*)(")''),
     (''(?i)"name": *"[^'' @ BS @ ''"]*ACCESS_?KEY_?ID[^'' @ BS @ ''"]*"'',
      ''(?i)("value": *")(?P<mask>.*[^'' @ BS @ ''"]*)(")''),
     (''(?i)"name": *"[^'' @ BS @ ''"]*OWNER_?ACCOUNT[^'' @ BS @ ''"]*"'',
      ''(?i)("value": *")(?P<mask>.*[^'' @ BS @ ''"]*)(")''),
     (''(?i)"name": *".*password[^'' @ BS @ ''"]*"'',
      ''(?i)("value": *")(?P<mask>.*[^'' @ BS @ ''"]*)(")''),
     (''(?i)"name": *".*token[^'' @ BS @ ''"]*"'',
      ''(?i)("value": *")(?P<mask>.*[^'' @ BS @ ''"]*)(")''),
     (''(?i)"name": *".*database[^'' @ BS @ ''"]*"'',
      ''(?i)("value": *")(?P<mask>.*[^'' @ BS @ ''"]*)(")''),
     (''(?i)"name": *".*user[^'' @ BS @ ''"]*"'',
      ''(?i)("value": *")(?P<mask>.*[^'' @ BS @ ''"]*)(")'')
  ]\<close>

fun singleLines_loop ::
  "externals \<Rightarrow> string \<Rightarrow> nat \<Rightarrow> string list \<Rightarrow> Redactor list \<Rightarrow> error + Redactor list" where
  "singleLines_loop ext path i [] redactors = Inr redactors"
| "singleLines_loop ext path i (re # rest) redactors =
     (case NewSingleLineRedactor ext re MASK_TEXT path
             (redactorName (quote ext) (- 1) (int i) '''' ''defaultRegex'' re) of
        Inl err \<Rightarrow> Inl err
      | Inr r \<Rightarrow> singleLines_loop ext path (i + 1) rest (redactors @ [r]))"

fun doubleLines_loop ::
  "externals \<Rightarrow> string \<Rightarrow> nat \<Rightarrow> (string \<times> string) list \<Rightarrow> Redactor list \<Rightarrow> error + Redactor list" where
  "doubleLines_loop ext path i [] redactors = Inr redactors"
| "doubleLines_loop ext path i (l # rest) redactors =
     (case NewMultiLineRedactor ext (fst l) (snd l) MASK_TEXT path
             (redactorName (quote ext) (- 1) (int i) '''' ''defaultMultiLine'' (fst l)) of
        Inl err \<Rightarrow> Inl err
      | Inr r \<Rightarrow> doubleLines_loop ext path (i + 1) rest (redactors @ [r]))"

definition getRedactors :: "externals \<Rightarrow> string \<Rightarrow> error + Redactor list" where
  "getRedactors ext path =
     (case singleLines_loop ext path 0 singleLines [] of
        Inl err \<Rightarrow> Inl err
      | Inr redactors \<Rightarrow> doubleLines_loop ext path 0 doubleLines redactors)"

subsection \<open>Redact\<close>

text \<open>The loop that wraps the reader in one redactor after the other.\<close>

fun wrap_readers :: "externals \<Rightarrow> Redactor list \<Rightarrow> reader \<Rightarrow> reader" where
  "wrap_readers ext [] nextReader = nextReader"
| "wrap_readers ext (r # rest) nextReader = wrap_readers ext rest (Redact_method ext r nextReader)"

text \<open>The result is the Go pair: the output, \<open>None\<close> for nil, and the error, \<open>None\<close> for nil.\<close>

definition Redact ::
  "externals \<Rightarrow> string \<Rightarrow> string \<Rightarrow> Redact_rule option list \<Rightarrow> string option \<times> error option" where
  "Redact ext input path additionalRedactors =
     (case getRedactors ext path of
        Inl err \<Rightarrow> (None, Some err)
      | Inr redactors \<Rightarrow>
          (case buildAdditionalRedactors ext path additionalRedactors of
             Inl err \<Rightarrow> (None, Some (Wrap err BuildCustomRedactors))
           | Inr builtRedactors \<Rightarrow>
               (case ReadAll (wrap_readers ext (redactors @ builtRedactors) (NewReader input)) of
                  (redacted, Some err) \<Rightarrow> (None, Some err)
                | (redacted, None) \<Rightarrow> (Some redacted, None))))"

subsection \<open>Notions of the specification\<close>

text \<open>
  The entries of a rule list that are not nil, each with its position in the list, and
  the outer loop over such entries alone.
\<close>

fun present :: "nat \<Rightarrow> 'a option list \<Rightarrow> (nat \<times> 'a) list" where
  "present i [] = []"
| "present i (None # rest) = present (i + 1) rest"
| "present i (Some x # rest) = (i, x) # present (i + 1) rest"

fun present_loop ::
  "externals \<Rightarrow> string \<Rightarrow> (nat \<times> Redact_rule) list \<Rightarrow> Redactor list \<Rightarrow> error + Redactor list" where
  "present_loop ext path [] additionalRedactors = Inr additionalRedactors"
| "present_loop ext path (e # rest) additionalRedactors =
     (case redact_body ext path (fst e) (snd e) additionalRedactors of
        Inl err \<Rightarrow> Inl err
      | Inr additionalRedactors \<Rightarrow> present_loop ext path rest additionalRedactors)"

text \<open>The glob strings of a rule: \<open>File\<close> when it is not empty, then \<open>Files\<close>.\<close>

definition rule_globs :: "Redact_rule \<Rightarrow> string list" where
  "rule_globs redact = (if File redact \<noteq> '''' then [File redact] else []) @ Files redact"

definition compiles :: "externals \<Rightarrow> string \<Rightarrow> bool" where
  "compiles ext re \<longleftrightarrow> \<not> isl (regexp_Compile ext re)"

definition glob_compiles :: "externals \<Rightarrow> string \<Rightarrow> bool" where
  "glob_compiles ext s \<longleftrightarrow> \<not> isl (glob_Compile ext s (CHR ''/''))"

text \<open>
  A rule has something that fails to compile: one of its globs, or, when the rule
  applies to the path, one of its regexes or a pattern of one of its multi-line pairs.
\<close>

definition fails_to_compile :: "externals \<Rightarrow> string \<Rightarrow> Redact_rule \<Rightarrow> bool" where
  "fails_to_compile ext path redact \<longleftrightarrow>
     list_ex (\<lambda>s. \<not> glob_compiles ext s) (rule_globs redact) \<or>
     (fst (redactMatchesPath ext path redact) \<and>
      (list_ex (\<lambda>re. \<not> compiles ext re) (Regex redact) \<or>
       list_ex (\<lambda>m. \<not> compiles ext (Selector m) \<or> \<not> compiles ext (Redactor m))
         (MultiLine redact)))"

text \<open>
  The redactors of one rule at position \<open>i\<close> that applies to the path, and of a rule
  list: one redactor for each regex, literal, multi-line pair and YAML path, in this
  order within a rule, the rules in the order of the list.
\<close>

definition rule_redactors :: "externals \<Rightarrow> string \<Rightarrow> nat \<Rightarrow> Redact_rule \<Rightarrow> Redactor list" where
  "rule_redactors ext path i redact =
     (if fst (redactMatchesPath ext path redact) then
        map (\<lambda>re. SingleLineRedactor (projr (regexp_Compile ext re)) MASK_TEXT path
               (redactorName (quote ext) (int i) 0 (Name redact) ''regex'' '''')) (Regex redact) @
        map (\<lambda>literal. literalRedactor literal path
               (redactorName (quote ext) (int i) 0 (Name redact) ''literal'' '''')) (Values redact) @
        map (\<lambda>m. MultiLineRedactor (projr (regexp_Compile ext (Selector m)))
               (projr (regexp_Compile ext (Redactor m))) MASK_TEXT path
               (redactorName (quote ext) (int i) 0 (Name redact) ''multiLine'' '''')) (MultiLine redact) @
        map (\<lambda>yaml. YamlRedactor yaml path
               (redactorName (quote ext) (int i) 0 (Name redact) ''yaml'' '''')) (Yaml redact)
      else [])"

definition custom_redactors :: "externals \<Rightarrow> string \<Rightarrow> Redact_rule option list \<Rightarrow> Redactor list" where
  "custom_redactors ext path redacts =
     concat (map (\<lambda>e. rule_redactors ext path (fst e) (snd e)) (present 0 redacts))"

text \<open>The built-in redactors: the single-line defaults in list order, then the multi-line ones.\<close>

definition default_redactors :: "externals \<Rightarrow> string \<Rightarrow> Redactor list" where
  "default_redactors ext path =
     map (\<lambda>e. SingleLineRedactor (projr (regexp_Compile ext (snd e))) MASK_TEXT path
            (redactorName (quote ext) (- 1) (int (fst e)) '''' ''defaultRegex'' (snd e)))
       (enumerate 0 singleLines) @
     map (\<lambda>e. MultiLineRedactor (projr (regexp_Compile ext (fst (snd e))))
            (projr (regexp_Compile ext (snd (snd e)))) MASK_TEXT path
            (redactorName (quote ext) (- 1) (int (fst e)) '''' ''defaultMultiLine'' (fst (snd e))))
       (enumerate 0 doubleLines)"

definition defaults_compile :: "externals \<Rightarrow> bool" where
  "defaults_compile ext \<longleftrightarrow>
     list_all (compiles ext) singleLines \<and>
     list_all (\<lambda>l. compiles ext (fst l) \<and> compiles ext (snd l)) doubleLines"

text \<open>What \<open>Redact\<close> returns for the reader at the end of the chain.\<close>

fun drained :: "reader \<Rightarrow> string option \<times> error option" where
  "drained (redacted, None) = (Some redacted, None)"
| "drained (redacted, Some err) = (None, Some err)"

subsection \<open>Stand-ins for the libraries\<close>

text \<open>
  Modelled from the spec: the file-glob capability, standard glob semantics with an
  explicit path separator, for patterns of literal characters, \<open>?\<close> (one character
  that is not the separator) and \<open>*\<close> (any run of characters that are not the
  separator).
\<close>

fun glob_Match :: "char \<Rightarrow> string \<Rightarrow> string \<Rightarrow> bool" where
  "glob_Match sep [] s = (s = [])"
| "glob_Match sep (p # ps) [] = (p = CHR ''*'' \<and> glob_Match sep ps [])"
| "glob_Match sep (p # ps) (c # cs) =
     (if p = CHR ''*'' then glob_Match sep ps (c # cs) \<or> (c \<noteq> sep \<and> glob_Match sep (p # ps) cs)
      else if p = CHR ''?'' then c \<noteq> sep \<and> glob_Match sep ps cs
      else p = c \<and> glob_Match sep ps cs)"

text \<open>
  \<open>%q\<close> on printable ASCII: double quotes around the text, and a backslash before
  every double quote and every backslash in it.
\<close>

definition quote_ascii :: "string \<Rightarrow> string" where
  "quote_ascii s =
     [CHR 0x22] @ concat (map (\<lambda>c. if c = CHR 0x22 \<or> c = CHR 0x5C then [CHR 0x5C, c] else [c]) s) @
     [CHR 0x22]"

text \<open>
  A stand-in for the libraries, for the concrete instances below. It takes every
  pattern but \<open>(\<close> for a regular expression (and keeps no groups of it), every string
  but \<open>[\<close> for a glob, and its redactors pass the stream on unchanged, except that a
  literal redactor for the text \<open>fail\<close> ends the stream after two bytes with an error.
\<close>

fun stub_Redact_method :: "Redactor \<Rightarrow> reader \<Rightarrow> reader" where
  "stub_Redact_method (literalRedactor matchString filePath name) rd =
     (if matchString = ''fail'' then (take 2 (fst rd), Some (External ''read failed'')) else rd)"
| "stub_Redact_method r rd = rd"

definition stub :: externals where
  "stub =
     \<lparr>regexp_Compile = (\<lambda>s. if s = ''('' then Inl (External ''missing closing )'')
                             else Inr \<lparr>expr = s, SubexpNames = ['''']\<rparr>),
      glob_Compile = (\<lambda>s sep. if s = ''['' then Inl (External ''unexpected end of input'')
                               else Inr (glob_Match sep s)),
      quote = quote_ascii,
      Redact_method = stub_Redact_method\<rparr>"

subsection \<open>Sample rules\<close>

definition broken_rule :: Redact_rule where
  "broken_rule = \<lparr>Name = ''keys'', File = ''logs/*.log'', Files = [],
     Regex = [''key=(?P<mask>.*)'', ''(''], Values = [], MultiLine = [], Yaml = []\<rparr>"

definition log_rule :: Redact_rule where
  "log_rule = \<lparr>Name = ''keys'', File = ''logs/*.log'', Files = [],
     Regex = [''key=(?P<mask>.*)''], Values = [''hunter2''], MultiLine = [], Yaml = [''spec.token'']\<rparr>"

definition yaml_rule :: Redact_rule where
  "yaml_rule = \<lparr>Name = '''', File = '''', Files = [''*.yaml'', ''config/*.yaml''],
     Regex = [''(''], Values = [''s3cr3t''], MultiLine = [], Yaml = []\<rparr>"

definition any_file_rule :: Redact_rule where
  "any_file_rule = \<lparr>Name = ''everywhere'', File = '''', Files = [],
     Regex = [], Values = [''hunter2''], MultiLine = [], Yaml = []\<rparr>"

definition bad_glob_rule :: Redact_rule where
  "bad_glob_rule = \<lparr>Name = ''broken'', File = ''logs/*.log'', Files = [''[''],
     Regex = [], Values = [''hunter2''], MultiLine = [], Yaml = []\<rparr>"

definition failing_rule :: Redact_rule where
  "failing_rule = \<lparr>Name = ''stream'', File = '''', Files = [],
     Regex = [], Values = [''fail''], MultiLine = [], Yaml = []\<rparr>"

definition anonymous_rule :: Redact_rule where
  "anonymous_rule = \<lparr>Name = '''', File = '''', Files = [],
     Regex = [], Values = [''hunter2''], MultiLine = [], Yaml = [''spec.token'']\<rparr>"

section \<open>Properties\<close>

subsection \<open>Formatting\<close>

lemma decimal_digits:
  "decimal 0 = ''0''" "decimal (Suc 0) = ''1''" "decimal 1 = ''1''" "decimal 2 = ''2''"
  "decimal 3 = ''3''"
  by (simp_all add: decimal.simps digit_def)

subsection \<open>Replacement templates\<close>

lemma getReplacementPattern_loop_pos:
  "0 < i \<Longrightarrow> getReplacementPattern_loop maskText i names substStr =
     substStr @ concat (map (group_template maskText) (enumerate i names))"
  by (induction names arbitrary: i substStr) (simp_all add: group_template_def)

text \<open>
  C2. The template that \<open>getReplacementPattern\<close> builds is the concatenation, over
  the capture groups in order and without group 0, of: the positional back-reference
  \<open>$i\<close> for an unnamed group, the mask text for a group named \<open>mask\<close>, nothing for
  a group named \<open>drop\<close>, and the name back-reference \<open>${name}\<close> for any other group.
\<close>

theorem getReplacementPattern_template:
  "getReplacementPattern re maskText = replacement_template (SubexpNames re) maskText"
proof (cases "SubexpNames re")
  case Nil
  then show ?thesis
    by (simp add: getReplacementPattern_def replacement_template_def)
next
  case (Cons name names)
  then show ?thesis
    by (simp add: getReplacementPattern_def replacement_template_def
        getReplacementPattern_loop_pos)
qed

theorem getReplacementPattern_template_witness:
  "getReplacementPattern
     \<lparr>expr = ''(?i)(Pwd *= *)(?P<mask>[^'' @ BS @ '';]+)(;)'',
      SubexpNames = ['''', '''', ''mask'', '''']\<rparr> MASK_TEXT = ''$1***HIDDEN***$3'' \<and>
   getReplacementPattern
     \<lparr>expr = ''(?P<mask>(?P<drop>a)(?P<drop>b))(?P<host>@c)(d)'',
      SubexpNames = ['''', ''mask'', ''drop'', ''drop'', ''host'', '''']\<rparr> MASK_TEXT =
     ''***HIDDEN***${host}$5''"
  using getReplacementPattern_template
    [of "\<lparr>expr = ''(?i)(Pwd *= *)(?P<mask>[^'' @ BS @ '';]+)(;)'',
          SubexpNames = ['''', '''', ''mask'', '''']\<rparr>" MASK_TEXT]
    getReplacementPattern_template
    [of "\<lparr>expr = ''(?P<mask>(?P<drop>a)(?P<drop>b))(?P<host>@c)(d)'',
          SubexpNames = ['''', ''mask'', ''drop'', ''drop'', ''host'', '''']\<rparr>" MASK_TEXT]
  by (simp add: replacement_template_def group_template_def fmt_d_def decimal.simps digit_def
      MASK_TEXT_def)

subsection \<open>Reading logical lines\<close>

lemma readLine_loop_prefix_reads:
  "prefix_reads ReadLine r fs = Some r1 \<Longrightarrow>
   readLine_loop ReadLine acc r = readLine_loop ReadLine (acc @ concat fs) r1"
proof (induction fs arbitrary: r acc)
  case Nil
  then show ?case by simp
next
  case (Cons f fs)
  from Cons.prems obtain r' where step: "ReadLine r = (Inr (f, True), r')"
    and rest: "prefix_reads ReadLine r' fs = Some r1"
    by (auto split: prod.splits sum.splits if_splits)
  have "readLine_loop ReadLine acc r = readLine_loop ReadLine (acc @ f) r'"
    by (subst readLine_loop.simps) (simp add: step)
  also have "\<dots> = readLine_loop ReadLine ((acc @ f) @ concat fs) r1"
    by (rule Cons.IH [OF rest])
  finally show ?case by simp
qed

lemma readLine_loop_complete:
  "ReadLine r = (Inr (f, False), r') \<Longrightarrow>
   readLine_loop ReadLine acc r = Some ((acc @ f, None), r')"
  by (subst readLine_loop.simps) simp

lemma readLine_loop_error:
  "ReadLine r = (Inl err, r') \<Longrightarrow>
   readLine_loop ReadLine acc r = Some (('''', Some err), r')"
  by (subst readLine_loop.simps) simp

text \<open>
  C9. When the coming calls of \<open>ReadLine\<close> return the fragments \<open>fs\<close> as prefixes
  and then a fragment \<open>f\<close> that completes the line, \<open>readLine\<close> returns the
  concatenation of all of them as one string, with no error, and leaves the reader
  after the last fragment. When the calls return prefixes and then an error (the end
  of the stream or a failure of it), \<open>readLine\<close> returns the empty string and that
  error.
\<close>

theorem readLine_logical_line:
  "(prefix_reads ReadLine r fs = Some r1 \<and> ReadLine r1 = (Inr (f, False), r2) \<longrightarrow>
      readLine ReadLine r = Some ((concat fs @ f, None), r2)) \<and>
   (prefix_reads ReadLine' q gs = Some q1 \<and> ReadLine' q1 = (Inl err, q2) \<longrightarrow>
      readLine ReadLine' q = Some (('''', Some err), q2))"
proof (intro conjI impI)
  assume "prefix_reads ReadLine r fs = Some r1 \<and> ReadLine r1 = (Inr (f, False), r2)"
  then show "readLine ReadLine r = Some ((concat fs @ f, None), r2)"
    using readLine_loop_prefix_reads [of ReadLine r fs r1 "[]"]
      readLine_loop_complete [of ReadLine r1 f r2 "concat fs"]
    by (simp add: readLine_def)
next
  assume "prefix_reads ReadLine' q gs = Some q1 \<and> ReadLine' q1 = (Inl err, q2)"
  then show "readLine ReadLine' q = Some (([], Some err), q2)"
    using readLine_loop_prefix_reads [of ReadLine' q gs q1 "[]"]
      readLine_loop_error [of ReadLine' q1 err q2 "concat gs"]
    by (simp add: readLine_def)
qed

theorem readLine_logical_line_witness:
  "readLine scripted_ReadLine
     ([Inr (''GET /index'', True), Inr (''.html HTTP'', True), Inr (''/1.1'', False),
       Inr (''next'', False)], EOF)
     = Some ((''GET /index.html HTTP/1.1'', None), ([Inr (''next'', False)], EOF)) \<and>
   readLine scripted_ReadLine ([Inr (''partial'', True)], EOF)
     = Some (('''', Some EOF), ([], EOF))"
  using readLine_logical_line
    [of scripted_ReadLine
        "([Inr (''GET /index'', True), Inr (''.html HTTP'', True), Inr (''/1.1'', False),
           Inr (''next'', False)], EOF)"
        "[''GET /index'', ''.html HTTP'']"
        "([Inr (''/1.1'', False), Inr (''next'', False)], EOF)"
        "''/1.1''" "([Inr (''next'', False)], EOF)"
        scripted_ReadLine "([Inr (''partial'', True)], EOF)" "[''partial'']" "([], EOF)"
        EOF "([], EOF)"]
  by simp

subsection \<open>The ledger of redactions\<close>

lemma entries_append_ByRedactor:
  "entries (ByRedactor (append_ByRedactor l r)) k =
     (if k = RedactorName r then entries (ByRedactor l) k @ [r] else entries (ByRedactor l) k)"
  by (simp add: append_ByRedactor_def entries_def)

lemma entries_append_ByFile:
  "entries (ByFile (append_ByFile l r)) k =
     (if k = Redaction.File r then entries (ByFile l) k @ [r] else entries (ByFile l) k)"
  by (simp add: append_ByFile_def entries_def)

lemma ByFile_append_ByRedactor: "ByFile (append_ByRedactor l r) = ByFile l"
  by (simp add: append_ByRedactor_def)

lemma ByRedactor_append_ByFile: "ByRedactor (append_ByFile l r) = ByRedactor l"
  by (simp add: append_ByFile_def)

lemma records_of_update:
  assumes "finite (dom m)"
  shows "records_of (m(k \<mapsto> entries m k @ [r])) = records_of m + {#r#}"
proof -
  let ?m' = "m(k \<mapsto> entries m k @ [r])"
  have rest: "(\<Sum>j \<in> dom m - {k}. mset (entries ?m' j)) = (\<Sum>j \<in> dom m - {k}. mset (entries m j))"
    by (rule sum.cong) (simp_all add: entries_def)
  have whole: "mset (entries m k) + (\<Sum>j \<in> dom m - {k}. mset (entries m j)) = records_of m"
  proof (cases "k \<in> dom m")
    case True
    then show ?thesis using assms by (simp add: records_of_def sum.remove [of _ k])
  next
    case False
    then have "dom m - {k} = dom m" "entries m k = []"
      by (auto simp: entries_def split: option.splits)
    then show ?thesis by (simp add: records_of_def)
  qed
  have "records_of ?m' = mset (entries ?m' k) + (\<Sum>j \<in> dom m - {k}. mset (entries ?m' j))"
    using assms by (simp add: records_of_def sum.insert_remove)
  also have "\<dots> = (mset (entries m k) + (\<Sum>j \<in> dom m - {k}. mset (entries m j))) + {#r#}"
    by (simp add: rest) (simp add: entries_def)
  finally show ?thesis by (simp only: whole)
qed

lemma finite_dom_append:
  "finite (dom (ByRedactor l)) \<and> finite (dom (ByFile l)) \<Longrightarrow>
   finite (dom (ByRedactor (append_redaction l r))) \<and> finite (dom (ByFile (append_redaction l r)))"
  by (simp add: append_redaction_def append_ByRedactor_def append_ByFile_def)

lemma records_of_append_redaction:
  "finite (dom (ByRedactor l)) \<Longrightarrow> finite (dom (ByFile l)) \<Longrightarrow>
   records_of (ByRedactor (append_redaction l r)) = records_of (ByRedactor l) + {#r#} \<and>
   records_of (ByFile (append_redaction l r)) = records_of (ByFile l) + {#r#}"
  by (simp add: append_redaction_def append_ByRedactor_def append_ByFile_def records_of_update)

lemma foldl_append_redaction:
  "finite (dom (ByRedactor l)) \<Longrightarrow> finite (dom (ByFile l)) \<Longrightarrow>
   finite (dom (ByRedactor (foldl append_redaction l rs))) \<and>
   finite (dom (ByFile (foldl append_redaction l rs))) \<and>
   records_of (ByRedactor (foldl append_redaction l rs)) = records_of (ByRedactor l) + mset rs \<and>
   records_of (ByFile (foldl append_redaction l rs)) = records_of (ByFile l) + mset rs"
proof (induction rs arbitrary: l)
  case Nil
  then show ?case by simp
next
  case (Cons r rs)
  have fin: "finite (dom (ByRedactor (append_redaction l r)))" "finite (dom (ByFile (append_redaction l r)))"
    using finite_dom_append [of l r] Cons.prems by simp_all
  show ?case
    using Cons.IH [OF fin] records_of_append_redaction [OF Cons.prems, of r]
    by (simp add: ac_simps)
qed

lemma entries_foldl_append_redaction:
  "entries (ByRedactor (foldl append_redaction l rs)) k =
     entries (ByRedactor l) k @ filter (\<lambda>r. RedactorName r = k) rs \<and>
   entries (ByFile (foldl append_redaction l rs)) k' =
     entries (ByFile l) k' @ filter (\<lambda>r. Redaction.File r = k') rs"
  by (induction rs arbitrary: l)
    (auto simp: append_redaction_def entries_append_ByRedactor entries_append_ByFile
      ByFile_append_ByRedactor ByRedactor_append_ByFile)

subsection \<open>The ledger under concurrency\<close>

lemma sum_list_map_update:
  fixes f :: "'a \<Rightarrow> nat"
  shows "i < length xs \<Longrightarrow> sum_list (map f (xs[i := y])) + f (xs ! i) = sum_list (map f xs) + f y"
proof (induction xs arbitrary: i)
  case Nil
  then show ?case by simp
next
  case (Cons x xs)
  then show ?case by (cases i) (simp_all add: add.assoc)
qed

lemma outstanding_move:
  "g < length (goroutines s) \<Longrightarrow>
   outstanding (move_goroutine g pc s) + not_done (goroutines s ! g) =
     outstanding s + not_done (fst (goroutines s ! g), pc)"
  by (simp add: outstanding_def move_goroutine_def sum_list_map_update)

lemma outstanding_zero:
  assumes "outstanding s = 0" and "g < length (goroutines s)"
  shows "is_done (snd (goroutines s ! g))"
proof -
  from assms(1) have "\<forall>n \<in> set (map not_done (goroutines s)). n = 0"
    by (simp add: outstanding_def)
  moreover have "not_done (goroutines s ! g) \<in> set (map not_done (goroutines s))"
    using assms(2) by simp
  ultimately have "not_done (goroutines s ! g) = 0" by blast
  then show ?thesis by (simp add: not_done_def is_done_def split: if_splits)
qed

lemma step_wg_inv:
  assumes "step e s = Some s'" and "wg_inv s"
  shows "wg_inv s'"
proof (cases e)
  case (AddRedaction r)
  with assms show ?thesis by (auto simp: wg_inv_def outstanding_def not_done_def)
next
  case (GoLock g)
  with assms outstanding_move [of g "s\<lparr>redactionListMut := True\<rparr>" Locked] show ?thesis
    by (auto simp: wg_inv_def goroutine_at_def not_done_def outstanding_def move_goroutine_def
        split: if_splits)
next
  case (GoAppendByRedactor g)
  with assms outstanding_move [of g "s\<lparr>allRedactions :=
      append_ByRedactor (allRedactions s) (fst (goroutines s ! g))\<rparr>" AppendedByRedactor]
  show ?thesis
    by (auto simp: wg_inv_def goroutine_at_def not_done_def outstanding_def move_goroutine_def
        split: if_splits)
next
  case (GoAppendByFile g)
  with assms outstanding_move [of g "s\<lparr>allRedactions :=
      append_ByFile (allRedactions s) (fst (goroutines s ! g))\<rparr>" AppendedByFile]
  show ?thesis
    by (auto simp: wg_inv_def goroutine_at_def not_done_def outstanding_def move_goroutine_def
        split: if_splits)
next
  case (GoDone g)
  with assms outstanding_move [of g "s\<lparr>pendingRedactions := pendingRedactions s - 1\<rparr>" DoneCalled]
  show ?thesis
    by (auto simp: wg_inv_def goroutine_at_def not_done_def outstanding_def move_goroutine_def
        split: if_splits)
next
  case (GoUnlock g)
  with assms outstanding_move [of g "s\<lparr>redactionListMut := False\<rparr>" Finished]
  show ?thesis
    by (auto simp: wg_inv_def goroutine_at_def not_done_def outstanding_def move_goroutine_def
        split: if_splits)
next
  case GetCall
  with assms show ?thesis by (auto simp: wg_inv_def outstanding_def)
next
  case (GetWait c)
  with assms show ?thesis
    by (auto simp: wg_inv_def outstanding_def move_call_def split: if_splits)
next
  case (GetLock c)
  with assms show ?thesis
    by (auto simp: wg_inv_def outstanding_def move_call_def split: if_splits)
next
  case (GetReturn c)
  with assms show ?thesis
    by (auto simp: wg_inv_def outstanding_def move_call_def split: if_splits)
next
  case ResetRedactionList
  with assms show ?thesis
    by (auto simp: wg_inv_def outstanding_def split: if_splits)
qed

lemma mem_append_ByRedactor:
  "r \<in> set (entries (ByRedactor l) k) \<Longrightarrow> r \<in> set (entries (ByRedactor (append_ByRedactor l x)) k)"
  by (auto simp: entries_append_ByRedactor)

lemma mem_append_ByFile:
  "r \<in> set (entries (ByFile l) k) \<Longrightarrow> r \<in> set (entries (ByFile (append_ByFile l x)) k)"
  by (auto simp: entries_append_ByFile)

lemma self_append_ByRedactor:
  "x \<in> set (entries (ByRedactor (append_ByRedactor l x)) (RedactorName x))"
  by (simp add: entries_append_ByRedactor)

lemma self_append_ByFile:
  "x \<in> set (entries (ByFile (append_ByFile l x)) (Redaction.File x))"
  by (simp add: entries_append_ByFile)

lemmas pc_defs = appended_ByRedactor_def appended_ByFile_def is_done_def

lemmas ledger_mono = mem_append_ByRedactor mem_append_ByFile self_append_ByRedactor
  self_append_ByFile ByFile_append_ByRedactor ByRedactor_append_ByFile

lemma step_recorded:
  assumes "step e s = Some s'" and "e \<noteq> ResetRedactionList" and "recorded g r s"
  shows "recorded g r s'"
proof (cases e)
  case (AddRedaction x)
  with assms show ?thesis by (auto simp: recorded_def nth_append)
next
  case (GoLock h)
  with assms show ?thesis
    by (auto simp: recorded_def goroutine_at_def move_goroutine_def nth_list_update pc_defs
        split: if_splits)
next
  case (GoAppendByRedactor h)
  with assms show ?thesis
    by (auto simp: recorded_def goroutine_at_def move_goroutine_def nth_list_update pc_defs
        ledger_mono split: if_splits)
next
  case (GoAppendByFile h)
  with assms show ?thesis
    by (auto simp: recorded_def goroutine_at_def move_goroutine_def nth_list_update pc_defs
        ledger_mono split: if_splits)
next
  case (GoDone h)
  with assms show ?thesis
    by (auto simp: recorded_def goroutine_at_def move_goroutine_def nth_list_update pc_defs
        split: if_splits)
next
  case (GoUnlock h)
  with assms show ?thesis
    by (auto simp: recorded_def goroutine_at_def move_goroutine_def nth_list_update pc_defs
        split: if_splits)
next
  case GetCall
  with assms show ?thesis by (auto simp: recorded_def)
next
  case (GetWait c)
  with assms show ?thesis by (auto simp: recorded_def move_call_def split: if_splits)
next
  case (GetLock c)
  with assms show ?thesis by (auto simp: recorded_def move_call_def split: if_splits)
next
  case (GetReturn c)
  with assms show ?thesis by (auto simp: recorded_def move_call_def split: if_splits)
next
  case ResetRedactionList
  with assms show ?thesis by simp
qed

lemma step_is_done:
  assumes "step e s = Some s'" and "g < length (goroutines s)" and "is_done (snd (goroutines s ! g))"
  shows "is_done (snd (goroutines s' ! g))"
  using assms
  by (cases e)
    (auto simp: goroutine_at_def move_goroutine_def move_call_def nth_list_update nth_append
      is_done_def split: if_splits)

lemma step_calls:
  assumes "step e s = Some s'" and "c < length (calls s)"
  shows "c < length (calls s') \<and>
    (calls s' ! c = calls s ! c \<or>
     (calls s ! c = Waiting \<and> calls s' ! c = Waited \<and> pendingRedactions s = 0) \<or>
     (calls s ! c = Waited \<and> calls s' ! c = Holding) \<or>
     (calls s ! c = Holding \<and> calls s' ! c = Returned (allRedactions s)))"
  using assms
  by (cases e)
    (auto simp: call_at_def move_goroutine_def move_call_def nth_list_update nth_append
      split: if_splits)

lemma recorded_holds:
  "recorded g r s \<Longrightarrow> is_done (snd (goroutines s ! g)) \<Longrightarrow> holds (allRedactions s) r"
  by (auto simp: recorded_def holds_def pc_defs)

lemma step_snapshot_ok:
  assumes st: "step e s = Some s'" and "e \<noteq> ResetRedactionList"
    and wg: "wg_inv s" and rec: "recorded g r s" and ok: "snapshot_ok c g r s"
  shows "snapshot_ok c g r s'"
proof -
  from ok have c: "c < length (calls s)" by (simp add: snapshot_ok_def)
  from rec have g: "g < length (goroutines s)" by (simp add: recorded_def)
  note calls = step_calls [OF st c]
  show ?thesis
  proof (cases "calls s ! c = Waiting")
    case True
    show ?thesis
    proof (cases "calls s' ! c = Waiting")
      case True
      with calls show ?thesis by (simp add: snapshot_ok_def)
    next
      case False
      with calls True have "pendingRedactions s = 0" "calls s' ! c = Waited" by auto
      with wg have "outstanding s = 0" by (simp add: wg_inv_def)
      from outstanding_zero [OF this g] have "is_done (snd (goroutines s ! g))" .
      from step_is_done [OF st g this] calls \<open>calls s' ! c = Waited\<close>
      show ?thesis by (simp add: snapshot_ok_def)
    qed
  next
    case False
    with ok have d: "is_done (snd (goroutines s ! g))"
      and v: "\<forall>v. calls s ! c = Returned v \<longrightarrow> holds v r"
      by (simp_all add: snapshot_ok_def)
    from step_is_done [OF st g d] have d': "is_done (snd (goroutines s' ! g))" .
    from recorded_holds [OF rec d] have h: "holds (allRedactions s) r" .
    from calls False v h have "\<forall>v. calls s' ! c = Returned v \<longrightarrow> holds v r" by auto
    with d' calls show ?thesis by (simp add: snapshot_ok_def)
  qed
qed

lemma run_append:
  "run (xs @ ys) s = (case run xs s of None \<Rightarrow> None | Some s' \<Rightarrow> run ys s')"
  by (induction xs arbitrary: s) (simp_all split: option.splits)

lemma run_wg_inv: "run es s = Some s' \<Longrightarrow> wg_inv s \<Longrightarrow> wg_inv s'"
  by (induction es arbitrary: s) (auto split: option.splits dest: step_wg_inv)

lemma run_recorded:
  "run es s = Some s' \<Longrightarrow> ResetRedactionList \<notin> set es \<Longrightarrow> wg_inv s \<Longrightarrow> recorded g r s \<Longrightarrow>
   recorded g r s'"
proof (induction es arbitrary: s)
  case Nil
  then show ?case by simp
next
  case (Cons e es)
  from Cons.prems obtain t where t: "step e s = Some t" "run es t = Some s'"
    by (auto split: option.splits)
  from Cons.prems have ne: "e \<noteq> ResetRedactionList" "ResetRedactionList \<notin> set es" by auto
  show ?case
    using Cons.IH [OF t(2) ne(2) step_wg_inv [OF t(1) Cons.prems(3)]
        step_recorded [OF t(1) ne(1) Cons.prems(4)]] .
qed

lemma run_snapshot_ok:
  "run es s = Some s' \<Longrightarrow> ResetRedactionList \<notin> set es \<Longrightarrow> wg_inv s \<Longrightarrow> recorded g r s \<Longrightarrow>
   snapshot_ok c g r s \<Longrightarrow> snapshot_ok c g r s'"
proof (induction es arbitrary: s)
  case Nil
  then show ?case by simp
next
  case (Cons e es)
  from Cons.prems obtain t where t: "step e s = Some t" "run es t = Some s'"
    by (auto split: option.splits)
  from Cons.prems have ne: "e \<noteq> ResetRedactionList" "ResetRedactionList \<notin> set es" by auto
  show ?case
    using Cons.IH [OF t(2) ne(2) step_wg_inv [OF t(1) Cons.prems(3)]
        step_recorded [OF t(1) ne(1) Cons.prems(4)]
        step_snapshot_ok [OF t(1) ne(1) Cons.prems(3) Cons.prems(4) Cons.prems(5)]] .
qed

lemma wg_inv_initial: "wg_inv initial"
  by (simp add: wg_inv_def initial_def outstanding_def)

lemma step_length_calls:
  "step e s = Some s' \<Longrightarrow> length (calls s') = length (calls s) + (if e = GetCall then 1 else 0)"
  by (cases e) (auto simp: move_goroutine_def move_call_def split: if_splits)

lemma run_length_calls:
  "run es s = Some s' \<Longrightarrow> length (calls s') = length (calls s) + GetCalls es"
proof (induction es arbitrary: s)
  case Nil
  then show ?case by (simp add: GetCalls_def)
next
  case (Cons e es)
  from Cons.prems obtain t where t: "step e s = Some t" "run es t = Some s'"
    by (auto split: option.splits)
  from Cons.IH [OF t(2)] step_length_calls [OF t(1)] show ?case
    by (simp add: GetCalls_def)
qed

lemma holds_earlier_redactions:
  assumes "run (earlier @ [AddRedaction r] @ between) initial = Some s1"
    and "run (GetCall # later) s1 = Some s2"
    and "ResetRedactionList \<notin> set (between @ later)"
    and "calls s2 ! length (calls s1) = Returned v"
  shows "holds v r"
proof -
  from assms(1) obtain s0 sa where s0: "run earlier initial = Some s0"
    and sa: "step (AddRedaction r) s0 = Some sa" and s1: "run between sa = Some s1"
    by (auto simp: run_append split: option.splits)
  let ?g = "length (goroutines s0)"
  let ?c = "length (calls s1)"
  have wg0: "wg_inv s0" by (rule run_wg_inv [OF s0 wg_inv_initial])
  have wga: "wg_inv sa" by (rule step_wg_inv [OF sa wg0])
  have reca: "recorded ?g r sa" using sa by (auto simp: recorded_def pc_defs)
  from assms(3) have nr: "ResetRedactionList \<notin> set between" "ResetRedactionList \<notin> set later"
    by auto
  have wg1: "wg_inv s1" by (rule run_wg_inv [OF s1 wga])
  have rec1: "recorded ?g r s1" by (rule run_recorded [OF s1 nr(1) wga reca])
  from assms(2) obtain sc where sc: "step GetCall s1 = Some sc" and s2: "run later sc = Some s2"
    by (auto split: option.splits)
  have wgc: "wg_inv sc" by (rule step_wg_inv [OF sc wg1])
  have recc: "recorded ?g r sc" by (rule step_recorded [OF sc _ rec1]) simp
  have okc: "snapshot_ok ?c ?g r sc" using sc by (auto simp: snapshot_ok_def)
  have "snapshot_ok ?c ?g r s2" by (rule run_snapshot_ok [OF s2 nr(2) wgc recc okc])
  with assms(4) show ?thesis by (simp add: snapshot_ok_def)
qed

lemma sum_list_map_update_gen:
  fixes f :: "'a \<Rightarrow> 'b::comm_monoid_add"
  shows "i < length xs \<Longrightarrow> sum_list (map f (xs[i := y])) + f (xs ! i) = sum_list (map f xs) + f y"
proof (induction xs arbitrary: i)
  case Nil
  then show ?case by simp
next
  case (Cons x xs)
  show ?case
  proof (cases i)
    case 0
    then show ?thesis by (simp add: ac_simps)
  next
    case (Suc j)
    with Cons.prems have "j < length xs" by simp
    from Cons.IH [OF this] Suc show ?thesis
      by (simp add: ac_simps)
  qed
qed

lemma holders_move_goroutine:
  "g < length (goroutines s) \<Longrightarrow>
   holders (move_goroutine g pc s) + holding_goroutine (goroutines s ! g) =
     holders s + holding_goroutine (fst (goroutines s ! g), pc)"
  using sum_list_map_update_gen [of g "goroutines s" holding_goroutine "(fst (goroutines s ! g), pc)"]
  by (simp add: holders_def move_goroutine_def)

lemma holders_move_call:
  "c < length (calls s) \<Longrightarrow>
   holders (move_call c pc s) + holding_call (calls s ! c) = holders s + holding_call pc"
  using sum_list_map_update_gen [of c "calls s" holding_call pc]
  by (simp add: holders_def move_call_def)

lemma holders_update [simp]:
  "holders (s\<lparr>redactionListMut := b\<rparr>) = holders s"
  "holders (s\<lparr>allRedactions := l\<rparr>) = holders s"
  "holders (s\<lparr>pendingRedactions := n\<rparr>) = holders s"
  by (simp_all add: holders_def)

lemma holders_append [simp]:
  "holders (s\<lparr>pendingRedactions := n, goroutines := goroutines s @ [(r, Started)]\<rparr>) = holders s"
  "holders (s\<lparr>calls := calls s @ [Waiting]\<rparr>) = holders s"
  by (simp_all add: holders_def holding_goroutine_def holding_call_def)

lemma move_fields [simp]:
  "redactionListMut (move_goroutine g pc s) = redactionListMut s"
  "allRedactions (move_goroutine g pc s) = allRedactions s"
  "redactionListMut (move_call c cpc s) = redactionListMut s"
  "allRedactions (move_call c cpc s) = allRedactions s"
  "goroutines (move_call c cpc s) = goroutines s"
  by (simp_all add: move_goroutine_def move_call_def)

lemma step_mutex_inv:
  assumes "step e s = Some s'" and "mutex_inv s"
  shows "mutex_inv s'"
proof (cases e)
  case (AddRedaction r)
  with assms show ?thesis by (auto simp: mutex_inv_def)
next
  case (GoLock g)
  with assms holders_move_goroutine [of g "s\<lparr>redactionListMut := True\<rparr>" Locked] show ?thesis
    by (auto simp: mutex_inv_def goroutine_at_def holding_goroutine_def split: if_splits)
next
  case (GoAppendByRedactor g)
  with assms holders_move_goroutine [of g "s\<lparr>allRedactions :=
      append_ByRedactor (allRedactions s) (fst (goroutines s ! g))\<rparr>" AppendedByRedactor]
  show ?thesis
    by (auto simp: mutex_inv_def goroutine_at_def holding_goroutine_def
        split: if_splits)
next
  case (GoAppendByFile g)
  with assms holders_move_goroutine [of g "s\<lparr>allRedactions :=
      append_ByFile (allRedactions s) (fst (goroutines s ! g))\<rparr>" AppendedByFile]
  show ?thesis
    by (auto simp: mutex_inv_def goroutine_at_def holding_goroutine_def
        split: if_splits)
next
  case (GoDone g)
  with assms holders_move_goroutine [of g "s\<lparr>pendingRedactions := pendingRedactions s - 1\<rparr>" DoneCalled]
  show ?thesis
    by (auto simp: mutex_inv_def goroutine_at_def holding_goroutine_def
        split: if_splits)
next
  case (GoUnlock g)
  with assms holders_move_goroutine [of g "s\<lparr>redactionListMut := False\<rparr>" Finished]
  show ?thesis
    by (auto simp: mutex_inv_def goroutine_at_def holding_goroutine_def
        split: if_splits)
next
  case GetCall
  with assms show ?thesis by (auto simp: mutex_inv_def)
next
  case (GetWait c)
  with assms holders_move_call [of c s Waited] show ?thesis
    by (auto simp: mutex_inv_def call_at_def holding_call_def split: if_splits)
next
  case (GetLock c)
  with assms holders_move_call [of c "s\<lparr>redactionListMut := True\<rparr>" Holding] show ?thesis
    by (auto simp: mutex_inv_def call_at_def holding_call_def split: if_splits)
next
  case (GetReturn c)
  with assms holders_move_call [of c "s\<lparr>redactionListMut := False\<rparr>" "Returned (allRedactions s)"]
  show ?thesis
    by (auto simp: mutex_inv_def call_at_def holding_call_def split: if_splits)
next
  case ResetRedactionList
  with assms show ?thesis by (auto simp: mutex_inv_def split: if_splits)
qed

lemma half_sum_move:
  "g < length (goroutines s) \<Longrightarrow>
   half_sum (move_goroutine g pc s) + half_appended (goroutines s ! g) =
     half_sum s + half_appended (fst (goroutines s ! g), pc)"
  using sum_list_map_update_gen [of g "goroutines s" half_appended "(fst (goroutines s ! g), pc)"]
  by (simp add: half_sum_def move_goroutine_def)

lemma half_sum_update [simp]:
  "half_sum (s\<lparr>redactionListMut := b\<rparr>) = half_sum s"
  "half_sum (s\<lparr>allRedactions := l\<rparr>) = half_sum s"
  "half_sum (s\<lparr>pendingRedactions := n\<rparr>) = half_sum s"
  "half_sum (s\<lparr>calls := cs\<rparr>) = half_sum s"
  "half_sum (move_call c cpc s) = half_sum s"
  "half_sum (s\<lparr>pendingRedactions := n, goroutines := goroutines s @ [(r, Started)]\<rparr>) = half_sum s"
  by (simp_all add: half_sum_def half_appended_def move_call_def)

lemma sum_list_all_empty:
  fixes ms :: "'a multiset list"
  shows "\<forall>m \<in> set ms. m = {#} \<Longrightarrow> sum_list ms = {#}"
  by (induction ms) simp_all

lemma holders_zero_half_sum:
  assumes "holders s = 0"
  shows "half_sum s = {#}"
proof -
  from assms have "\<forall>n \<in> set (map holding_goroutine (goroutines s)). n = 0"
    by (simp add: holders_def)
  then have "\<forall>g \<in> set (goroutines s). snd g \<noteq> AppendedByRedactor"
    by (auto simp: holding_goroutine_def split: if_splits)
  then have "\<forall>m \<in> set (map half_appended (goroutines s)). m = {#}"
    by (auto simp: half_appended_def)
  then show ?thesis
    unfolding half_sum_def by (rule sum_list_all_empty)
qed

lemma records_of_append_ByRedactor:
  "finite (dom (ByRedactor l)) \<Longrightarrow>
   records_of (ByRedactor (append_ByRedactor l r)) = records_of (ByRedactor l) + {#r#}"
  by (simp add: append_ByRedactor_def records_of_update)

lemma records_of_append_ByFile:
  "finite (dom (ByFile l)) \<Longrightarrow>
   records_of (ByFile (append_ByFile l r)) = records_of (ByFile l) + {#r#}"
  by (simp add: append_ByFile_def records_of_update)

lemma finite_dom_appends [simp]:
  "finite (dom (ByRedactor (append_ByRedactor l r))) = finite (dom (ByRedactor l))"
  "finite (dom (ByFile (append_ByFile l r))) = finite (dom (ByFile l))"
  by (simp_all add: append_ByRedactor_def append_ByFile_def)

lemma step_ledger_ok:
  assumes "step e s = Some s'" and "mutex_inv s" and "ledger_ok s"
  shows "ledger_ok s'"
proof (cases e)
  case (AddRedaction r)
  with assms show ?thesis by (auto simp: ledger_ok_def)
next
  case (GoLock g)
  with assms half_sum_move [of g "s\<lparr>redactionListMut := True\<rparr>" Locked] show ?thesis
    by (auto simp: ledger_ok_def goroutine_at_def half_appended_def split: if_splits)
next
  case (GoAppendByRedactor g)
  with assms half_sum_move [of g "s\<lparr>allRedactions :=
      append_ByRedactor (allRedactions s) (fst (goroutines s ! g))\<rparr>" AppendedByRedactor]
  show ?thesis
    by (auto simp: ledger_ok_def goroutine_at_def half_appended_def records_of_append_ByRedactor
        ByFile_append_ByRedactor split: if_splits)
next
  case (GoAppendByFile g)
  with assms half_sum_move [of g "s\<lparr>allRedactions :=
      append_ByFile (allRedactions s) (fst (goroutines s ! g))\<rparr>" AppendedByFile]
  show ?thesis
    by (auto simp: ledger_ok_def goroutine_at_def half_appended_def records_of_append_ByFile
        ByRedactor_append_ByFile ac_simps split: if_splits)
next
  case (GoDone g)
  with assms half_sum_move [of g "s\<lparr>pendingRedactions := pendingRedactions s - 1\<rparr>" DoneCalled]
  show ?thesis
    by (auto simp: ledger_ok_def goroutine_at_def half_appended_def split: if_splits)
next
  case (GoUnlock g)
  with assms half_sum_move [of g "s\<lparr>redactionListMut := False\<rparr>" Finished]
  show ?thesis
    by (auto simp: ledger_ok_def goroutine_at_def half_appended_def split: if_splits)
next
  case GetCall
  with assms show ?thesis by (auto simp: ledger_ok_def)
next
  case (GetWait c)
  with assms show ?thesis by (auto simp: ledger_ok_def split: if_splits)
next
  case (GetLock c)
  with assms show ?thesis by (auto simp: ledger_ok_def split: if_splits)
next
  case (GetReturn c)
  with assms show ?thesis by (auto simp: ledger_ok_def split: if_splits)
next
  case ResetRedactionList
  with assms have "holders s = 0" by (auto simp: mutex_inv_def split: if_splits)
  from holders_zero_half_sum [OF this] ResetRedactionList assms show ?thesis
    by (auto simp: ledger_ok_def empty_RedactionList_def records_of_def split: if_splits)
qed

lemma run_ledger_ok:
  "run es s = Some s' \<Longrightarrow> mutex_inv s \<Longrightarrow> ledger_ok s \<Longrightarrow> mutex_inv s' \<and> ledger_ok s'"
proof (induction es arbitrary: s)
  case Nil
  then show ?case by simp
next
  case (Cons e es)
  from Cons.prems obtain t where t: "step e s = Some t" "run es t = Some s'"
    by (auto split: option.splits)
  show ?case
    using Cons.IH [OF t(2) step_mutex_inv [OF t(1) Cons.prems(2)]
        step_ledger_ok [OF t(1) Cons.prems(2) Cons.prems(3)]] .
qed

lemma initial_ok: "mutex_inv initial \<and> ledger_ok initial"
  by (simp add: mutex_inv_def ledger_ok_def initial_def holders_def half_sum_def
      empty_RedactionList_def records_of_def)

lemma free_mutex_indices_agree:
  assumes "run es initial = Some s" and "\<not> redactionListMut s"
  shows "records_of (ByRedactor (allRedactions s)) = records_of (ByFile (allRedactions s))"
proof -
  from run_ledger_ok [OF assms(1)] initial_ok have "mutex_inv s" "ledger_ok s" by simp_all
  with assms(2) holders_zero_half_sum [of s] show ?thesis
    by (simp add: mutex_inv_def ledger_ok_def)
qed

subsection \<open>The two indices\<close>

text \<open>
  C8. One append puts the record at the end of the list under its \<open>RedactorName\<close>
  in \<open>ByRedactor\<close> and at the end of the list under its \<open>File\<close> in \<open>ByFile\<close>,
  and leaves every other list as it was. After the appends of the records \<open>rs\<close> to
  the empty ledger, the list under a key is the records of \<open>rs\<close> with that key, in
  the order of the appends, and each index holds exactly the records \<open>rs\<close>, each as
  often as it was appended: the multisets of the two indices are equal. In every run of
  the package, whatever the interleaving of the goroutines, the calls and the resets,
  the two indices hold the same multiset of records whenever the mutex is free.
\<close>

theorem ledger_indices_agree:
  "(\<forall>k. entries (ByRedactor (append_redaction l r)) k =
        (if k = RedactorName r then entries (ByRedactor l) k @ [r] else entries (ByRedactor l) k)) \<and>
   (\<forall>k. entries (ByFile (append_redaction l r)) k =
        (if k = Redaction.File r then entries (ByFile l) k @ [r] else entries (ByFile l) k)) \<and>
   (\<forall>k. entries (ByRedactor (foldl append_redaction empty_RedactionList rs)) k =
        filter (\<lambda>r. RedactorName r = k) rs) \<and>
   (\<forall>k. entries (ByFile (foldl append_redaction empty_RedactionList rs)) k =
        filter (\<lambda>r. Redaction.File r = k) rs) \<and>
   records_of (ByRedactor (foldl append_redaction empty_RedactionList rs)) = mset rs \<and>
   records_of (ByFile (foldl append_redaction empty_RedactionList rs)) = mset rs \<and>
   (run es initial = Some s \<and> \<not> redactionListMut s \<longrightarrow>
      records_of (ByRedactor (allRedactions s)) = records_of (ByFile (allRedactions s)))"
proof -
  have e: "entries (ByRedactor empty_RedactionList) k = []" "entries (ByFile empty_RedactionList) k = []" for k
    by (simp_all add: empty_RedactionList_def entries_def)
  have r: "records_of (ByRedactor empty_RedactionList) = {#}" "records_of (ByFile empty_RedactionList) = {#}"
    by (simp_all add: empty_RedactionList_def records_of_def)
  have f: "finite (dom (ByRedactor empty_RedactionList))" "finite (dom (ByFile empty_RedactionList))"
    by (simp_all add: empty_RedactionList_def)
  show ?thesis
    using foldl_append_redaction [OF f, of rs] free_mutex_indices_agree [of es s]
    by (simp add: append_redaction_def entries_append_ByRedactor entries_append_ByFile
      ByFile_append_ByRedactor ByRedactor_append_ByFile entries_foldl_append_redaction e r)
qed

theorem ledger_indices_agree_witness:
  "entries (ByRedactor (foldl append_redaction empty_RedactionList
      [sample_redaction, other_redaction, sample_redaction])) ''regex-0'' =
     [sample_redaction, sample_redaction] \<and>
   entries (ByFile (foldl append_redaction empty_RedactionList
      [sample_redaction, other_redaction, sample_redaction])) ''a.log'' =
     [sample_redaction, other_redaction, sample_redaction] \<and>
   records_of (ByRedactor (foldl append_redaction empty_RedactionList
      [sample_redaction, other_redaction, sample_redaction])) =
   records_of (ByFile (foldl append_redaction empty_RedactionList
      [sample_redaction, other_redaction, sample_redaction])) \<and>
   (\<exists>s. run [AddRedaction sample_redaction, AddRedaction other_redaction, GoLock 1,
             GoAppendByRedactor 1, GoAppendByFile 1, GoDone 1, GoUnlock 1, GoLock 0,
             GoAppendByRedactor 0, GoAppendByFile 0, GoDone 0, GoUnlock 0] initial = Some s \<and>
        \<not> redactionListMut s \<and>
        records_of (ByRedactor (allRedactions s)) = records_of (ByFile (allRedactions s)))"
proof -
  let ?es = "[AddRedaction sample_redaction, AddRedaction other_redaction, GoLock 1,
    GoAppendByRedactor 1, GoAppendByFile 1, GoDone 1, GoUnlock 1, GoLock 0,
    GoAppendByRedactor 0, GoAppendByFile 0, GoDone 0, GoUnlock 0]"
  obtain s where s: "run ?es initial = Some s" "\<not> redactionListMut s"
    by (simp add: initial_def goroutine_at_def move_goroutine_def)
  note t = ledger_indices_agree [of empty_RedactionList sample_redaction
      "[sample_redaction, other_redaction, sample_redaction]" ?es s]
  from t s have "records_of (ByRedactor (allRedactions s)) = records_of (ByFile (allRedactions s))"
    by blast
  with s have "\<exists>s. run ?es initial = Some s \<and> \<not> redactionListMut s \<and>
      records_of (ByRedactor (allRedactions s)) = records_of (ByFile (allRedactions s))"
    by blast
  with t show ?thesis
    by (simp add: sample_redaction_def other_redaction_def)
qed

subsection \<open>The snapshot of GetRedactionList\<close>

text \<open>
  C1, as amended. In a run from the initial state, take a record that \<open>addRedaction\<close>
  has issued before a call of \<open>GetRedactionList\<close> begins. If no
  \<open>ResetRedactionList\<close> runs between the issue and the return of the call, the value
  that the call returns holds the record in both indices: \<open>Wait\<close> returns only when
  every goroutine started so far has called \<open>Done\<close>, which each does after its two
  assignments. The events \<open>between\<close> and \<open>later\<close> are arbitrary otherwise: other
  appends, other calls, any interleaving.
\<close>

theorem GetRedactionList_holds_earlier_redactions:
  assumes "returned (earlier @ [AddRedaction r] @ between @ GetCall # later)
             (GetCalls (earlier @ between)) = Some v"
    and "ResetRedactionList \<notin> set (between @ later)"
  shows "holds v r"
proof -
  let ?c = "GetCalls (earlier @ between)"
  from assms(1) obtain s2 where
    s2: "run ((earlier @ [AddRedaction r] @ between) @ GetCall # later) initial = Some s2"
    and v: "calls s2 ! ?c = Returned v"
    by (auto simp: returned_def split: option.splits if_splits call_pc.splits)
  from s2 obtain s1 where s1: "run (earlier @ [AddRedaction r] @ between) initial = Some s1"
    and s12: "run (GetCall # later) s1 = Some s2"
    using run_append [of "earlier @ [AddRedaction r] @ between" "GetCall # later" initial]
    by (auto simp del: run.simps step.simps append.simps append_assoc split: option.splits)
  from run_length_calls [OF s1] have "length (calls s1) = ?c"
    by (simp add: GetCalls_def initial_def)
  with v have "calls s2 ! length (calls s1) = Returned v" by simp
  from holds_earlier_redactions [OF s1 s12 assms(2) this] show ?thesis .
qed

lemmas run_defs = initial_def returned_def goroutine_at_def call_at_def move_goroutine_def
  move_call_def append_ByRedactor_def append_ByFile_def empty_RedactionList_def entries_def
  holds_def sample_redaction_def GetCalls_def

theorem GetRedactionList_holds_earlier_redactions_witness:
  "returned [AddRedaction sample_redaction, GoLock 0, GetCall, GoAppendByRedactor 0,
      GoAppendByFile 0, GoDone 0, GetWait 0, GoUnlock 0, GetLock 0, GetReturn 0] 0 =
     Some \<lparr>ByRedactor = [''regex-0'' \<mapsto> [sample_redaction]],
           ByFile = [''a.log'' \<mapsto> [sample_redaction]]\<rparr> \<and>
   holds \<lparr>ByRedactor = [''regex-0'' \<mapsto> [sample_redaction]],
          ByFile = [''a.log'' \<mapsto> [sample_redaction]]\<rparr> sample_redaction"
proof -
  have r: "returned ([] @ [AddRedaction sample_redaction] @ [GoLock 0] @ GetCall #
      [GoAppendByRedactor 0, GoAppendByFile 0, GoDone 0, GetWait 0, GoUnlock 0, GetLock 0,
       GetReturn 0]) (GetCalls ([] @ [GoLock 0])) =
     Some \<lparr>ByRedactor = [''regex-0'' \<mapsto> [sample_redaction]],
           ByFile = [''a.log'' \<mapsto> [sample_redaction]]\<rparr>"
    by (simp add: run_defs)
  have n: "ResetRedactionList \<notin> set ([GoLock 0] @ [GoAppendByRedactor 0, GoAppendByFile 0,
      GoDone 0, GetWait 0, GoUnlock 0, GetLock 0, GetReturn 0])"
    by simp
  from GetRedactionList_holds_earlier_redactions [OF r n] r show ?thesis
    by (simp add: GetCalls_def)
qed

text \<open>
  Without the condition on \<open>ResetRedactionList\<close> the statement fails: a record that was
  appended and then cleared is not in the value that a later call returns.
\<close>

theorem GetRedactionList_after_reset_counterexample:
  "returned [AddRedaction sample_redaction, GoLock 0, GoAppendByRedactor 0, GoAppendByFile 0,
      GoDone 0, GoUnlock 0, ResetRedactionList, GetCall, GetWait 0, GetLock 0, GetReturn 0] 0 =
     Some empty_RedactionList \<and>
   \<not> holds empty_RedactionList sample_redaction"
  by (simp add: run_defs)

text \<open>
  A record issued while the call is under way (here after its \<open>Wait\<close> has returned) need
  not be in the value returned.
\<close>

lemma later_redaction_not_guaranteed:
  "returned [GetCall, GetWait 0, AddRedaction sample_redaction, GetLock 0, GetReturn 0, GoLock 0,
      GoAppendByRedactor 0, GoAppendByFile 0, GoDone 0, GoUnlock 0] 0 =
     Some empty_RedactionList \<and>
   \<not> holds empty_RedactionList sample_redaction"
  by (simp add: run_defs)

subsection \<open>Building the redactors\<close>

lemma NewSingleLineRedactor_compiles:
  "compiles ext re \<Longrightarrow>
   NewSingleLineRedactor ext re m p n = Inr (SingleLineRedactor (projr (regexp_Compile ext re)) m p n)"
  by (cases "regexp_Compile ext re") (simp_all add: NewSingleLineRedactor_def compiles_def)

lemma NewSingleLineRedactor_fails:
  "\<not> compiles ext re \<Longrightarrow> isl (NewSingleLineRedactor ext re m p n)"
  by (cases "regexp_Compile ext re") (simp_all add: NewSingleLineRedactor_def compiles_def)

lemma NewMultiLineRedactor_compiles:
  "compiles ext re1 \<Longrightarrow> compiles ext re2 \<Longrightarrow>
   NewMultiLineRedactor ext re1 re2 m p n =
     Inr (MultiLineRedactor (projr (regexp_Compile ext re1)) (projr (regexp_Compile ext re2)) m p n)"
  by (cases "regexp_Compile ext re1"; cases "regexp_Compile ext re2")
    (simp_all add: NewMultiLineRedactor_def compiles_def)

lemma NewMultiLineRedactor_fails:
  "\<not> compiles ext re1 \<or> \<not> compiles ext re2 \<Longrightarrow> isl (NewMultiLineRedactor ext re1 re2 m p n)"
  by (cases "regexp_Compile ext re1"; cases "regexp_Compile ext re2")
    (simp_all add: NewMultiLineRedactor_def compiles_def)

lemma Regex_loop_compiles:
  "list_all (compiles ext) res \<Longrightarrow>
   Regex_loop ext path i w name res acc =
     Inr (acc @ map (\<lambda>re. SingleLineRedactor (projr (regexp_Compile ext re)) MASK_TEXT path
                      (redactorName (quote ext) (int i) w name ''regex'' '''')) res)"
  by (induction res arbitrary: acc) (simp_all add: NewSingleLineRedactor_compiles)

lemma Regex_loop_fails:
  "list_ex (\<lambda>re. \<not> compiles ext re) res \<Longrightarrow> isl (Regex_loop ext path i w name res acc)"
proof (induction res arbitrary: acc)
  case Nil
  then show ?case by simp
next
  case (Cons re res)
  show ?case
  proof (cases "compiles ext re")
    case True
    with Cons show ?thesis by (simp add: NewSingleLineRedactor_compiles)
  next
    case False
    from NewSingleLineRedactor_fails [OF this, of MASK_TEXT path
        "redactorName (quote ext) (int i) w name ''regex'' []"]
    show ?thesis
      by (cases "NewSingleLineRedactor ext re MASK_TEXT path
            (redactorName (quote ext) (int i) w name ''regex'' [])") simp_all
  qed
qed

lemma Values_loop_eq:
  "Values_loop ext path i w name vs acc =
     acc @ map (\<lambda>literal. literalRedactor literal path
                  (redactorName (quote ext) (int i) w name ''literal'' '''')) vs"
  by (induction vs arbitrary: acc) (simp_all add: literalString_def)

lemma Yaml_loop_eq:
  "Yaml_loop ext path i w name ys acc =
     acc @ map (\<lambda>yaml. YamlRedactor yaml path
                  (redactorName (quote ext) (int i) w name ''yaml'' '''')) ys"
  by (induction ys arbitrary: acc) (simp_all add: NewYamlRedactor_def)

lemma MultiLine_loop_compiles:
  "list_all (\<lambda>m. compiles ext (Selector m) \<and> compiles ext (Redactor m)) ms \<Longrightarrow>
   MultiLine_loop ext path i w name ms acc =
     Inr (acc @ map (\<lambda>m. MultiLineRedactor (projr (regexp_Compile ext (Selector m)))
                      (projr (regexp_Compile ext (Redactor m))) MASK_TEXT path
                      (redactorName (quote ext) (int i) w name ''multiLine'' '''')) ms)"
  by (induction ms arbitrary: acc) (simp_all add: NewMultiLineRedactor_compiles)

lemma MultiLine_loop_fails:
  "list_ex (\<lambda>m. \<not> compiles ext (Selector m) \<or> \<not> compiles ext (Redactor m)) ms \<Longrightarrow>
   isl (MultiLine_loop ext path i w name ms acc)"
proof (induction ms arbitrary: acc)
  case Nil
  then show ?case by simp
next
  case (Cons m ms)
  show ?case
  proof (cases "compiles ext (Selector m) \<and> compiles ext (Redactor m)")
    case True
    with Cons show ?thesis by (simp add: NewMultiLineRedactor_compiles)
  next
    case False
    then have "\<not> compiles ext (Selector m) \<or> \<not> compiles ext (Redactor m)" by simp
    from NewMultiLineRedactor_fails [OF this, of MASK_TEXT path
        "redactorName (quote ext) (int i) w name ''multiLine'' []"]
    show ?thesis
      by (cases "NewMultiLineRedactor ext (Selector m) (Redactor m) MASK_TEXT path
            (redactorName (quote ext) (int i) w name ''multiLine'' [])") simp_all
  qed
qed

lemma compile_Files_compiles:
  "list_all (glob_compiles ext) fs \<Longrightarrow>
   compile_Files ext i fs globs = Inr (globs @ map (\<lambda>s. projr (glob_Compile ext s (CHR ''/''))) fs)"
proof (induction fs arbitrary: i globs)
  case Nil
  then show ?case by simp
next
  case (Cons f fs)
  then obtain g where "glob_Compile ext f (CHR ''/'') = Inr g"
    by (cases "glob_Compile ext f (CHR ''/'')") (simp_all add: glob_compiles_def)
  with Cons show ?case by simp
qed

lemma compile_Files_fails:
  "list_ex (\<lambda>s. \<not> glob_compiles ext s) fs \<Longrightarrow> isl (compile_Files ext i fs globs)"
proof (induction fs arbitrary: i globs)
  case Nil
  then show ?case by simp
next
  case (Cons f fs)
  then show ?case
    by (cases "glob_Compile ext f (CHR ''/'')") (simp_all add: glob_compiles_def)
qed

lemma match_globs_list_ex: "match_globs path globs = list_ex (\<lambda>g. g path) globs"
  by (induction globs) simp_all

lemma redactMatchesPath_compiles:
  assumes "list_all (glob_compiles ext) (rule_globs redact)"
  shows "redactMatchesPath ext path redact =
     (rule_globs redact = [] \<or>
      list_ex (\<lambda>s. projr (glob_Compile ext s (CHR ''/'')) path) (rule_globs redact), None)"
proof (cases "File redact = ''''")
  case True
  with assms show ?thesis
    by (simp add: redactMatchesPath_def rule_globs_def compile_Files_compiles
        match_globs_list_ex list_ex_iff)
next
  case False
  with assms obtain g where "glob_Compile ext (File redact) (CHR ''/'') = Inr g"
    by (cases "glob_Compile ext (File redact) (CHR ''/'')")
      (simp_all add: glob_compiles_def rule_globs_def)
  with assms False show ?thesis
    by (simp add: redactMatchesPath_def rule_globs_def compile_Files_compiles
        match_globs_list_ex list_ex_iff)
qed

lemma redactMatchesPath_fails:
  assumes "list_ex (\<lambda>s. \<not> glob_compiles ext s) (rule_globs redact)"
  shows "\<exists>err. redactMatchesPath ext path redact = (False, Some err)"
proof (cases "File redact \<noteq> '''' \<and> \<not> glob_compiles ext (File redact)")
  case True
  then show ?thesis
    by (cases "glob_Compile ext (File redact) (CHR ''/'')")
      (simp_all add: redactMatchesPath_def glob_compiles_def)
next
  case False
  with assms have files: "list_ex (\<lambda>s. \<not> glob_compiles ext s) (Files redact)"
    by (auto simp: rule_globs_def split: if_splits)
  then have ne: "Files redact \<noteq> []" by auto
  have c: "\<exists>err. compile_Files ext 0 (Files redact) globs = Inl err" for globs
    using compile_Files_fails [OF files, of 0 globs]
    by (cases "compile_Files ext 0 (Files redact) globs") simp_all
  show ?thesis
  proof (cases "File redact = ''''")
    case True
    with ne c [of "[]"] show ?thesis by (auto simp: redactMatchesPath_def)
  next
    case False
    with \<open>\<not> (File redact \<noteq> '''' \<and> \<not> glob_compiles ext (File redact))\<close>
    obtain g where g: "glob_Compile ext (File redact) (CHR ''/'') = Inr g"
      by (cases "glob_Compile ext (File redact) (CHR ''/'')") (simp_all add: glob_compiles_def)
    with False c [of "[g]"] show ?thesis by (auto simp: redactMatchesPath_def)
  qed
qed

lemma isl_case_Inl: "isl x \<Longrightarrow> isl (case x of Inl err \<Rightarrow> Inl err | Inr y \<Rightarrow> f y)"
  by (cases x) simp_all

lemma fails_to_compile_globs:
  "list_all (glob_compiles ext) (rule_globs redact) \<or>
   list_ex (\<lambda>s. \<not> glob_compiles ext s) (rule_globs redact)"
  by (auto simp: list_all_iff list_ex_iff)

lemma redact_body_fails:
  assumes "fails_to_compile ext path redact"
  shows "isl (redact_body ext path i redact acc)"
proof (cases "list_ex (\<lambda>s. \<not> glob_compiles ext s) (rule_globs redact)")
  case True
  from redactMatchesPath_fails [OF this, of path] show ?thesis
    by (auto simp: redact_body_def)
next
  case False
  with assms have m: "fst (redactMatchesPath ext path redact)"
    and f: "list_ex (\<lambda>re. \<not> compiles ext re) (Regex redact) \<or>
       list_ex (\<lambda>m. \<not> compiles ext (Selector m) \<or> \<not> compiles ext (Redactor m)) (MultiLine redact)"
    by (auto simp: fails_to_compile_def)
  from False have "list_all (glob_compiles ext) (rule_globs redact)"
    by (auto simp: list_all_iff list_ex_iff)
  from redactMatchesPath_compiles [OF this, of path] m
  have mp: "redactMatchesPath ext path redact = (True, None)"
    by (cases "redactMatchesPath ext path redact") auto
  show ?thesis
  proof (cases "list_ex (\<lambda>re. \<not> compiles ext re) (Regex redact)")
    case True
    from Regex_loop_fails [OF this, of path i 0 "Name redact" acc] show ?thesis
      by (cases "Regex_loop ext path i 0 (Name redact) (Regex redact) acc")
        (simp_all add: redact_body_def mp)
  next
    case False
    then have "list_all (compiles ext) (Regex redact)"
      by (auto simp: list_all_iff list_ex_iff)
    note r = Regex_loop_compiles [OF this, of path i 0 "Name redact" acc]
    from False f
    have "list_ex (\<lambda>m. \<not> compiles ext (Selector m) \<or> \<not> compiles ext (Redactor m)) (MultiLine redact)"
      by simp
    note ml = MultiLine_loop_fails [OF this, of path i 0 "Name redact"]
    show ?thesis
      by (simp add: redact_body_def mp r isl_case_Inl ml)
  qed
qed

lemma redact_body_compiles:
  assumes "\<not> fails_to_compile ext path redact"
  shows "redact_body ext path i redact acc = Inr (acc @ rule_redactors ext path i redact)"
proof -
  from assms have g: "list_all (glob_compiles ext) (rule_globs redact)"
    by (auto simp: fails_to_compile_def list_all_iff list_ex_iff)
  obtain b where mp: "redactMatchesPath ext path redact = (b, None)"
    using redactMatchesPath_compiles [OF g, of path] by simp
  show ?thesis
  proof (cases b)
    case False
    with mp show ?thesis by (simp add: redact_body_def rule_redactors_def)
  next
    case True
    with assms mp have r: "list_all (compiles ext) (Regex redact)"
      and m: "list_all (\<lambda>m. compiles ext (Selector m) \<and> compiles ext (Redactor m)) (MultiLine redact)"
      by (auto simp: fails_to_compile_def list_all_iff list_ex_iff)
    from True mp show ?thesis
      by (simp add: redact_body_def rule_redactors_def Regex_loop_compiles [OF r]
          MultiLine_loop_compiles [OF m] Values_loop_eq Yaml_loop_eq)
  qed
qed

lemma present_loop_fails:
  "list_ex (\<lambda>e. fails_to_compile ext path (snd e)) es \<Longrightarrow> isl (present_loop ext path es acc)"
proof (induction es arbitrary: acc)
  case Nil
  then show ?case by simp
next
  case (Cons e es)
  show ?case
  proof (cases "fails_to_compile ext path (snd e)")
    case True
    from redact_body_fails [OF this, of "fst e" acc] show ?thesis
      by (cases "redact_body ext path (fst e) (snd e) acc") simp_all
  next
    case False
    with Cons show ?thesis by (simp add: redact_body_compiles)
  qed
qed

lemma present_loop_compiles:
  "list_all (\<lambda>e. \<not> fails_to_compile ext path (snd e)) es \<Longrightarrow>
   present_loop ext path es acc =
     Inr (acc @ concat (map (\<lambda>e. rule_redactors ext path (fst e) (snd e)) es))"
  by (induction es arbitrary: acc) (simp_all add: redact_body_compiles)

lemma redacts_loop_present:
  "redacts_loop ext path i redacts acc = present_loop ext path (present i redacts) acc"
proof (induction redacts arbitrary: i acc)
  case Nil
  then show ?case by simp
next
  case (Cons redact redacts)
  then show ?case by (cases redact) (simp_all split: sum.splits)
qed

lemma snd_present: "snd ` set (present i xs) = {x. Some x \<in> set xs}"
proof (induction xs arbitrary: i)
  case Nil
  then show ?case by simp
next
  case (Cons x xs)
  then show ?case by (cases x) auto
qed

lemma present_replicate_None: "present i (replicate n None) = []"
  by (induction n arbitrary: i) simp_all

lemma buildAdditionalRedactors_fails:
  assumes "Some redact \<in> set redacts" and "fails_to_compile ext path redact"
  shows "isl (buildAdditionalRedactors ext path redacts)"
proof -
  from assms(1) have "redact \<in> snd ` set (present 0 redacts)" by (simp add: snd_present)
  with assms(2) have "list_ex (\<lambda>e. fails_to_compile ext path (snd e)) (present 0 redacts)"
    by (auto simp: list_ex_iff)
  from present_loop_fails [OF this] show ?thesis
    by (simp add: buildAdditionalRedactors_def redacts_loop_present)
qed

lemma buildAdditionalRedactors_compiles:
  assumes "list_all (\<lambda>e. \<not> fails_to_compile ext path (snd e)) (present 0 redacts)"
  shows "buildAdditionalRedactors ext path redacts = Inr (custom_redactors ext path redacts)"
  using present_loop_compiles [OF assms, of "[]"]
  by (simp add: buildAdditionalRedactors_def redacts_loop_present custom_redactors_def)

lemma singleLines_loop_compiles:
  "list_all (compiles ext) res \<Longrightarrow>
   singleLines_loop ext path i res acc =
     Inr (acc @ map (\<lambda>e. SingleLineRedactor (projr (regexp_Compile ext (snd e))) MASK_TEXT path
                      (redactorName (quote ext) (- 1) (int (fst e)) '''' ''defaultRegex'' (snd e)))
                  (enumerate i res))"
  by (induction res arbitrary: i acc) (simp_all add: NewSingleLineRedactor_compiles)

lemma doubleLines_loop_compiles:
  "list_all (\<lambda>l. compiles ext (fst l) \<and> compiles ext (snd l)) ls \<Longrightarrow>
   doubleLines_loop ext path i ls acc =
     Inr (acc @ map (\<lambda>e. MultiLineRedactor (projr (regexp_Compile ext (fst (snd e))))
                      (projr (regexp_Compile ext (snd (snd e)))) MASK_TEXT path
                      (redactorName (quote ext) (- 1) (int (fst e)) '''' ''defaultMultiLine''
                         (fst (snd e))))
                  (enumerate i ls))"
  by (induction ls arbitrary: i acc) (simp_all add: NewMultiLineRedactor_compiles)

lemma getRedactors_compiles:
  "defaults_compile ext \<Longrightarrow> getRedactors ext path = Inr (default_redactors ext path)"
  by (simp add: getRedactors_def defaults_compile_def default_redactors_def
      singleLines_loop_compiles doubleLines_loop_compiles)

lemma wrap_readers_foldl:
  "wrap_readers ext rs nextReader = foldl (\<lambda>nextReader r. Redact_method ext r nextReader) nextReader rs"
  by (induction rs arbitrary: nextReader) simp_all

lemma Redact_built:
  "getRedactors ext path = Inr redactors \<Longrightarrow>
   buildAdditionalRedactors ext path redacts = Inr builtRedactors \<Longrightarrow>
   Redact ext input path redacts =
     drained (wrap_readers ext (redactors @ builtRedactors) (NewReader input))"
  by (cases "wrap_readers ext (redactors @ builtRedactors) (NewReader input)")
    (auto simp: Redact_def ReadAll_def split: option.splits)

subsection \<open>Redact and the rules\<close>

lemma compiles_stub: "compiles stub re \<longleftrightarrow> re \<noteq> ''(''"
  by (simp add: compiles_def stub_def)

lemma glob_compiles_stub: "glob_compiles stub s \<longleftrightarrow> s \<noteq> ''[''"
  by (simp add: glob_compiles_def stub_def)

lemma defaults_compile_stub: "defaults_compile stub"
  by (simp add: defaults_compile_def compiles_stub singleLines_def doubleLines_def)

text \<open>
  C3. When an entry of the rule list is a rule with something that fails to compile (one
  of its file globs, or, the rule applying to the path, one of its regexes or a pattern
  of one of its multi-line pairs), \<open>Redact\<close> returns a nil output and an error that is
  not nil, whatever the input and the other rules are.
\<close>

theorem Redact_compile_error:
  "Some redact \<in> set redacts \<and> fails_to_compile ext path redact \<longrightarrow>
   fst (Redact ext input path redacts) = None \<and> snd (Redact ext input path redacts) \<noteq> None"
proof
  assume "Some redact \<in> set redacts \<and> fails_to_compile ext path redact"
  then have "isl (buildAdditionalRedactors ext path redacts)"
    by (auto intro: buildAdditionalRedactors_fails)
  then show "fst (Redact ext input path redacts) = None \<and> snd (Redact ext input path redacts) \<noteq> None"
    by (cases "getRedactors ext path"; cases "buildAdditionalRedactors ext path redacts")
      (simp_all add: Redact_def)
qed

theorem Redact_compile_error_witness:
  "fails_to_compile stub ''logs/app.log'' broken_rule \<and>
   Redact stub ''key=1'' ''logs/app.log'' [None, Some broken_rule] =
     (None, Some (Wrap (Wrap (External ''missing closing )'') (RedactorContext ''(''))
        BuildCustomRedactors))"
proof -
  have mp: "redactMatchesPath stub ''logs/app.log'' broken_rule = (True, None)"
    by (simp add: redactMatchesPath_def broken_rule_def stub_def)
  have "list_ex (\<lambda>re. \<not> compiles stub re) (Regex broken_rule)"
    by (simp add: compiles_stub broken_rule_def)
  with mp have f: "fails_to_compile stub ''logs/app.log'' broken_rule"
    by (simp add: fails_to_compile_def)
  have m: "Some broken_rule \<in> set [None, Some broken_rule]" by simp
  have b: "buildAdditionalRedactors stub ''logs/app.log'' [None, Some broken_rule] =
      Inl (Wrap (External ''missing closing )'') (RedactorContext ''(''))"
    by (simp add: buildAdditionalRedactors_def redact_body_def redactMatchesPath_def
        broken_rule_def stub_def NewSingleLineRedactor_def)
  from Redact_compile_error [of broken_rule "[None, Some broken_rule]" stub "''logs/app.log''" "''key=1''"]
    f m have "fst (Redact stub ''key=1'' ''logs/app.log'' [None, Some broken_rule]) = None"
    by simp
  moreover have "snd (Redact stub ''key=1'' ''logs/app.log'' [None, Some broken_rule]) =
      Some (Wrap (Wrap (External ''missing closing )'') (RedactorContext ''('')) BuildCustomRedactors)"
    by (simp add: Redact_def getRedactors_compiles [OF defaults_compile_stub] b)
  ultimately show ?thesis using f by (simp add: prod_eq_iff)
qed

lemma foldl_stub_SingleLine:
  "foldl (\<lambda>nextReader r. stub_Redact_method r nextReader) rd
     (map (\<lambda>e. SingleLineRedactor (a e) (b e) (c e) (d e)) xs) = rd"
  by (induction xs) simp_all

lemma foldl_stub_MultiLine:
  "foldl (\<lambda>nextReader r. stub_Redact_method r nextReader) rd
     (map (\<lambda>e. MultiLineRedactor (a e) (a' e) (b e) (c e) (d e)) xs) = rd"
  by (induction xs) simp_all

lemma foldl_stub_defaults:
  "foldl (\<lambda>nextReader r. Redact_method stub r nextReader) rd (default_redactors stub path) = rd"
proof -
  have "Redact_method stub = stub_Redact_method" by (simp add: stub_def)
  then show ?thesis
    by (simp add: default_redactors_def foldl_stub_SingleLine foldl_stub_MultiLine)
qed

text \<open>
  C4. When the built-in patterns compile and no rule has something that fails to compile,
  \<open>getRedactors\<close> gives the built-in redactors (the single-line defaults in list order,
  then the multi-line defaults in list order), \<open>buildAdditionalRedactors\<close> gives the
  redactors of the rules in the order of the list, and \<open>Redact\<close> returns what is drained
  from the input wrapped in the built-in redactors first and the custom ones after them,
  each redactor applied once to the reader that the one before it returned.
\<close>

theorem Redact_chain_order:
  "defaults_compile ext \<and>
   list_all (\<lambda>e. \<not> fails_to_compile ext path (snd e)) (present 0 redacts) \<longrightarrow>
   getRedactors ext path = Inr (default_redactors ext path) \<and>
   buildAdditionalRedactors ext path redacts = Inr (custom_redactors ext path redacts) \<and>
   Redact ext input path redacts =
     drained (foldl (\<lambda>nextReader r. Redact_method ext r nextReader) (NewReader input)
                (default_redactors ext path @ custom_redactors ext path redacts))"
proof
  assume a: "defaults_compile ext \<and>
    list_all (\<lambda>e. \<not> fails_to_compile ext path (snd e)) (present 0 redacts)"
  then have g: "getRedactors ext path = Inr (default_redactors ext path)"
    by (simp add: getRedactors_compiles)
  from a have b: "buildAdditionalRedactors ext path redacts = Inr (custom_redactors ext path redacts)"
    by (simp add: buildAdditionalRedactors_compiles)
  from Redact_built [OF g b] g b
  show "getRedactors ext path = Inr (default_redactors ext path) \<and>
    buildAdditionalRedactors ext path redacts = Inr (custom_redactors ext path redacts) \<and>
    Redact ext input path redacts =
      drained (foldl (\<lambda>nextReader r. Redact_method ext r nextReader) (NewReader input)
                 (default_redactors ext path @ custom_redactors ext path redacts))"
    by (simp add: wrap_readers_foldl)
qed

lemma redactMatchesPath_log_rule:
  "redactMatchesPath stub ''logs/app.log'' log_rule = (True, None)"
  by (simp add: redactMatchesPath_def log_rule_def stub_def)

lemma redactMatchesPath_yaml_rule:
  "redactMatchesPath stub ''logs/app.log'' yaml_rule = (False, None)"
  by (simp add: redactMatchesPath_def yaml_rule_def stub_def)

lemma sample_rules_compile:
  "list_all (\<lambda>e. \<not> fails_to_compile stub ''logs/app.log'' (snd e))
     (present 0 [Some log_rule, None, Some yaml_rule])"
proof -
  have "\<not> fails_to_compile stub ''logs/app.log'' log_rule"
    by (simp add: fails_to_compile_def redactMatchesPath_log_rule glob_compiles_stub compiles_stub
        rule_globs_def) (simp add: log_rule_def)
  moreover have "\<not> fails_to_compile stub ''logs/app.log'' yaml_rule"
    by (simp add: fails_to_compile_def redactMatchesPath_yaml_rule glob_compiles_stub
        rule_globs_def) (simp add: yaml_rule_def)
  ultimately show ?thesis by simp
qed

lemma custom_redactors_sample:
  "custom_redactors stub ''logs/app.log'' [Some log_rule, None, Some yaml_rule] =
     [SingleLineRedactor \<lparr>expr = ''key=(?P<mask>.*)'', SubexpNames = ['''']\<rparr> ''***HIDDEN***''
        ''logs/app.log'' ''keys-0'',
      literalRedactor ''hunter2'' ''logs/app.log'' ''keys-0'',
      YamlRedactor ''spec.token'' ''logs/app.log'' ''keys-0'']"
  by (simp add: custom_redactors_def rule_redactors_def redactMatchesPath_log_rule
      redactMatchesPath_yaml_rule)
    (simp add: log_rule_def stub_def redactorName_def fmt_d_def decimal_digits MASK_TEXT_def)

theorem Redact_chain_order_witness:
  "getRedactors stub ''logs/app.log'' = Inr (default_redactors stub ''logs/app.log'') \<and>
   length (default_redactors stub ''logs/app.log'') = 25 \<and>
   buildAdditionalRedactors stub ''logs/app.log'' [Some log_rule, None, Some yaml_rule] =
     Inr [SingleLineRedactor \<lparr>expr = ''key=(?P<mask>.*)'', SubexpNames = ['''']\<rparr> ''***HIDDEN***''
            ''logs/app.log'' ''keys-0'',
          literalRedactor ''hunter2'' ''logs/app.log'' ''keys-0'',
          YamlRedactor ''spec.token'' ''logs/app.log'' ''keys-0''] \<and>
   Redact stub ''key=1'' ''logs/app.log'' [Some log_rule, None, Some yaml_rule] =
     (Some ''key=1'', None)"
  using Redact_chain_order [of stub "''logs/app.log''" "[Some log_rule, None, Some yaml_rule]" "''key=1''"]
    defaults_compile_stub sample_rules_compile
  by (simp add: custom_redactors_sample foldl_stub_defaults)
    (simp add: default_redactors_def singleLines_def doubleLines_def stub_def NewReader_def)

lemma rule_globs_Nil: "rule_globs redact = [] \<longleftrightarrow> File redact = '''' \<and> Files redact = []"
  by (simp add: rule_globs_def)

text \<open>
  C5, as amended. A rule with an empty \<open>File\<close> and no \<open>Files\<close> matches every path.
  A rule with globs that all compile matches a path exactly when one of its globs
  matches the path. When one of its globs does not compile the result is \<open>false\<close>
  with an error, whether or not another glob of the rule matches the path: the source
  compiles every glob before it matches any. In particular a rule whose only glob is
  \<open>logs/*.log\<close> does not match the path \<open>config/app.yaml\<close>, the glob not matching
  that path.
\<close>

theorem redactMatchesPath_globs:
  "(File redact = '''' \<and> Files redact = [] \<longrightarrow> redactMatchesPath ext path redact = (True, None)) \<and>
   ((File redact2 \<noteq> '''' \<or> Files redact2 \<noteq> []) \<and>
    list_all (glob_compiles ext2) (rule_globs redact2) \<longrightarrow>
      redactMatchesPath ext2 path2 redact2 =
        (list_ex (\<lambda>s. projr (glob_Compile ext2 s (CHR ''/'')) path2) (rule_globs redact2), None)) \<and>
   (list_ex (\<lambda>s. \<not> glob_compiles ext3 s) (rule_globs redact3) \<longrightarrow>
      fst (redactMatchesPath ext3 path3 redact3) = False \<and>
      snd (redactMatchesPath ext3 path3 redact3) \<noteq> None) \<and>
   (File redact4 = ''logs/*.log'' \<and> Files redact4 = [] \<and>
    glob_Compile ext4 ''logs/*.log'' (CHR ''/'') = Inr g \<and> \<not> g ''config/app.yaml'' \<longrightarrow>
      redactMatchesPath ext4 ''config/app.yaml'' redact4 = (False, None))"
proof (intro conjI impI)
  assume "File redact = '''' \<and> Files redact = []"
  then show "redactMatchesPath ext path redact = (True, None)"
    by (simp add: redactMatchesPath_def)
next
  assume a: "(File redact2 \<noteq> '''' \<or> Files redact2 \<noteq> []) \<and>
    list_all (glob_compiles ext2) (rule_globs redact2)"
  then have "rule_globs redact2 \<noteq> []" by (simp add: rule_globs_Nil)
  with a redactMatchesPath_compiles [of ext2 redact2 path2]
  show "redactMatchesPath ext2 path2 redact2 =
    (list_ex (\<lambda>s. projr (glob_Compile ext2 s (CHR ''/'')) path2) (rule_globs redact2), None)"
    by simp
next
  assume "list_ex (\<lambda>s. \<not> glob_compiles ext3 s) (rule_globs redact3)"
  from redactMatchesPath_fails [OF this, of path3]
  show "fst (redactMatchesPath ext3 path3 redact3) = False" by auto
next
  assume "list_ex (\<lambda>s. \<not> glob_compiles ext3 s) (rule_globs redact3)"
  from redactMatchesPath_fails [OF this, of path3]
  show "snd (redactMatchesPath ext3 path3 redact3) \<noteq> None" by auto
next
  assume "File redact4 = ''logs/*.log'' \<and> Files redact4 = [] \<and>
    glob_Compile ext4 ''logs/*.log'' (CHR ''/'') = Inr g \<and> \<not> g ''config/app.yaml''"
  then show "redactMatchesPath ext4 ''config/app.yaml'' redact4 = (False, None)"
    by (simp add: redactMatchesPath_def)
qed

theorem redactMatchesPath_globs_witness:
  "redactMatchesPath stub ''config/app.yaml'' any_file_rule = (True, None) \<and>
   redactMatchesPath stub ''config/app.yaml'' yaml_rule = (True, None) \<and>
   redactMatchesPath stub ''logs/app.log'' yaml_rule = (False, None) \<and>
   fst (redactMatchesPath stub ''logs/app.log'' bad_glob_rule) = False \<and>
   snd (redactMatchesPath stub ''logs/app.log'' bad_glob_rule) \<noteq> None \<and>
   redactMatchesPath stub ''config/app.yaml'' log_rule = (False, None) \<and>
   redactMatchesPath stub ''logs/app.log'' log_rule = (True, None)"
proof -
  have 1: "File any_file_rule = '''' \<and> Files any_file_rule = []"
    by (simp add: any_file_rule_def)
  have 2: "(File yaml_rule \<noteq> '''' \<or> Files yaml_rule \<noteq> []) \<and>
      list_all (glob_compiles stub) (rule_globs yaml_rule)"
    by (simp add: yaml_rule_def rule_globs_def glob_compiles_stub)
  have 3: "list_ex (\<lambda>s. \<not> glob_compiles stub s) (rule_globs bad_glob_rule)"
    by (simp add: bad_glob_rule_def rule_globs_def glob_compiles_stub)
  have 4: "File log_rule = ''logs/*.log'' \<and> Files log_rule = [] \<and>
      glob_Compile stub ''logs/*.log'' (CHR ''/'') = Inr (glob_Match (CHR ''/'') ''logs/*.log'') \<and>
      \<not> glob_Match (CHR ''/'') ''logs/*.log'' ''config/app.yaml''"
    by (simp add: log_rule_def stub_def)
  have y: "list_ex (\<lambda>s. projr (glob_Compile stub s (CHR ''/'')) ''config/app.yaml'') (rule_globs yaml_rule)"
    by (simp add: yaml_rule_def rule_globs_def stub_def)
  from redactMatchesPath_globs [of any_file_rule stub "''config/app.yaml''" yaml_rule stub
      "''config/app.yaml''" stub bad_glob_rule "''logs/app.log''" log_rule stub
      "glob_Match (CHR ''/'') ''logs/*.log''"] 1 2 3 4 y
  show ?thesis
    by (simp add: redactMatchesPath_log_rule redactMatchesPath_yaml_rule)
qed

text \<open>
  Without the condition that the globs compile the equivalence fails: of the globs
  \<open>logs/*.log\<close> and \<open>[\<close> the first compiles and matches the path
  \<open>logs/app.log\<close>, the second does not compile, and the result is \<open>false\<close> with
  the error of the second.
\<close>

theorem redactMatchesPath_bad_glob_counterexample:
  "rule_globs bad_glob_rule = [''logs/*.log'', ''[''] \<and>
   glob_Compile stub ''logs/*.log'' (CHR ''/'') = Inr (glob_Match (CHR ''/'') ''logs/*.log'') \<and>
   glob_Match (CHR ''/'') ''logs/*.log'' ''logs/app.log'' \<and>
   redactMatchesPath stub ''logs/app.log'' bad_glob_rule =
     (False, Some (Wrap (External ''unexpected end of input'') (InvalidFileGlobAt 0 ''['')))"
  by (simp add: rule_globs_def bad_glob_rule_def stub_def redactMatchesPath_def)

text \<open>
  C6. The names are not distinct within a rule: \<open>withinRedactNum\<close> is declared as 0
  ("give unique redaction names") and never changed, so the two regexes of a named rule
  both get the name \<open>secrets-0\<close>, and the two literals of an anonymous rule both get
  \<open>unnamed-0.0-literal\<close>.
\<close>

theorem redactorName_repeats:
  "buildAdditionalRedactors stub ''a.log''
     [Some \<lparr>Name = ''secrets'', File = '''', Files = [],
        Regex = [''password=(?P<mask>.*)'', ''token=(?P<mask>.*)''], Values = [],
        MultiLine = [], Yaml = []\<rparr>] =
     Inr [SingleLineRedactor \<lparr>expr = ''password=(?P<mask>.*)'', SubexpNames = ['''']\<rparr>
            ''***HIDDEN***'' ''a.log'' ''secrets-0'',
          SingleLineRedactor \<lparr>expr = ''token=(?P<mask>.*)'', SubexpNames = ['''']\<rparr>
            ''***HIDDEN***'' ''a.log'' ''secrets-0''] \<and>
   buildAdditionalRedactors stub ''a.log''
     [Some \<lparr>Name = '''', File = '''', Files = [], Regex = [], Values = [''hunter2'', ''s3cr3t''],
        MultiLine = [], Yaml = []\<rparr>] =
     Inr [literalRedactor ''hunter2'' ''a.log'' ''unnamed-0.0-literal'',
          literalRedactor ''s3cr3t'' ''a.log'' ''unnamed-0.0-literal'']"
  by (simp add: buildAdditionalRedactors_def redact_body_def redactMatchesPath_def
      NewSingleLineRedactor_def literalString_def stub_def redactorName_def fmt_d_def
      decimal_digits MASK_TEXT_def)

text \<open>
  In general, every redactor built from a rule with a name has the name of the rule
  followed by \<open>-0\<close>.
\<close>

lemma redactorName_named:
  "name \<noteq> '''' \<Longrightarrow> redactorName q i w name type literal = name @ ''-'' @ fmt_d w"
  by (simp add: redactorName_def)

lemma rule_redactors_names:
  "Name redact \<noteq> '''' \<Longrightarrow> r \<in> set (rule_redactors ext path i redact) \<Longrightarrow>
   redactName r = Name redact @ ''-0''"
  by (auto simp: rule_redactors_def redactorName_named fmt_d_def decimal_digits split: if_splits)

text \<open>
  C7. When the redactors are built, \<open>Redact\<close> returns all the bytes of the wrapped reader
  and a nil error if the reader ends without an error, and a nil output and the error
  if the reader ends with one, the bytes read before the error being dropped. For every
  call the output is nil exactly when the error is not nil.
\<close>

theorem Redact_all_or_nothing:
  "(getRedactors ext path = Inr redactors \<and>
    buildAdditionalRedactors ext path redacts = Inr builtRedactors \<and>
    wrap_readers ext (redactors @ builtRedactors) (NewReader input) = (redacted, None) \<longrightarrow>
      Redact ext input path redacts = (Some redacted, None)) \<and>
   (getRedactors ext2 path2 = Inr redactors2 \<and>
    buildAdditionalRedactors ext2 path2 redacts2 = Inr builtRedactors2 \<and>
    wrap_readers ext2 (redactors2 @ builtRedactors2) (NewReader input2) = (partial, Some err) \<longrightarrow>
      Redact ext2 input2 path2 redacts2 = (None, Some err)) \<and>
   ((fst (Redact ext3 input3 path3 redacts3) = None) =
    (snd (Redact ext3 input3 path3 redacts3) \<noteq> None))"
proof (intro conjI impI)
  assume "getRedactors ext path = Inr redactors \<and>
    buildAdditionalRedactors ext path redacts = Inr builtRedactors \<and>
    wrap_readers ext (redactors @ builtRedactors) (NewReader input) = (redacted, None)"
  then show "Redact ext input path redacts = (Some redacted, None)"
    by (simp add: Redact_built)
next
  assume "getRedactors ext2 path2 = Inr redactors2 \<and>
    buildAdditionalRedactors ext2 path2 redacts2 = Inr builtRedactors2 \<and>
    wrap_readers ext2 (redactors2 @ builtRedactors2) (NewReader input2) = (partial, Some err)"
  then show "Redact ext2 input2 path2 redacts2 = (None, Some err)"
    by (simp add: Redact_built)
next
  show "(fst (Redact ext3 input3 path3 redacts3) = None) =
    (snd (Redact ext3 input3 path3 redacts3) \<noteq> None)"
    by (simp add: Redact_def split: sum.splits prod.splits option.splits)
qed

lemma buildAdditionalRedactors_failing_rule:
  "buildAdditionalRedactors stub ''logs/app.log'' [Some failing_rule] =
     Inr [literalRedactor ''fail'' ''logs/app.log'' ''stream-0'']"
  by (simp add: buildAdditionalRedactors_def redact_body_def redactMatchesPath_def
      literalString_def failing_rule_def redactorName_def fmt_d_def decimal_digits)

lemma wrap_readers_stub_defaults:
  "wrap_readers stub (default_redactors stub path @ rs) rd = wrap_readers stub rs rd"
  by (simp add: wrap_readers_foldl foldl_stub_defaults)

theorem Redact_all_or_nothing_witness:
  "Redact stub ''password=hunter2'' ''logs/app.log'' [] = (Some ''password=hunter2'', None) \<and>
   Redact stub ''password=hunter2'' ''logs/app.log'' [Some failing_rule] =
     (None, Some (External ''read failed''))"
proof -
  note g = getRedactors_compiles [OF defaults_compile_stub, of "''logs/app.log''"]
  have b: "buildAdditionalRedactors stub ''logs/app.log'' [] = Inr []"
    by (simp add: buildAdditionalRedactors_def)
  have w: "wrap_readers stub (default_redactors stub ''logs/app.log'' @ [])
      (NewReader ''password=hunter2'') = (''password=hunter2'', None)"
    by (simp only: wrap_readers_stub_defaults) (simp add: NewReader_def)
  have w2: "wrap_readers stub (default_redactors stub ''logs/app.log'' @
      [literalRedactor ''fail'' ''logs/app.log'' ''stream-0''])
      (NewReader ''password=hunter2'') = (''pa'', Some (External ''read failed''))"
    by (simp only: wrap_readers_stub_defaults) (simp add: NewReader_def stub_def)
  from Redact_all_or_nothing [of stub "''logs/app.log''" "default_redactors stub ''logs/app.log''"
      "[]" "[]" "''password=hunter2''" "''password=hunter2''"
      stub "''logs/app.log''" "default_redactors stub ''logs/app.log''" "[Some failing_rule]"
      "[literalRedactor ''fail'' ''logs/app.log'' ''stream-0'']" "''password=hunter2''" "''pa''"
      "External ''read failed''"]
    g b w w2 buildAdditionalRedactors_failing_rule
  show ?thesis by simp
qed

lemma present_append:
  "present i (xs @ ys) = present i xs @ present (i + length xs) ys"
proof (induction xs arbitrary: i)
  case Nil
  then show ?case by simp
next
  case (Cons x xs)
  then show ?case by (cases x) simp_all
qed

text \<open>
  C10. \<open>buildAdditionalRedactors\<close> returns what the loop over the entries that are not
  nil returns, each entry at its position in the list: a nil entry adds no redactor and
  no error. A list of nil entries alone gives no redactor and no error, and nil entries
  after a list change neither the result of \<open>buildAdditionalRedactors\<close> nor that of
  \<open>Redact\<close>.
\<close>

theorem buildAdditionalRedactors_skips_nil:
  "buildAdditionalRedactors ext path redacts = present_loop ext path (present 0 redacts) [] \<and>
   buildAdditionalRedactors ext path (replicate n None) = Inr [] \<and>
   buildAdditionalRedactors ext path (redacts @ replicate n None) =
     buildAdditionalRedactors ext path redacts \<and>
   Redact ext input path (redacts @ replicate n None) = Redact ext input path redacts"
proof -
  have a: "buildAdditionalRedactors ext path rs = present_loop ext path (present 0 rs) []" for rs
    by (simp add: buildAdditionalRedactors_def redacts_loop_present)
  have b: "buildAdditionalRedactors ext path (redacts @ replicate n None) =
      buildAdditionalRedactors ext path redacts"
    by (simp add: a present_append present_replicate_None)
  have c: "Redact ext input path (redacts @ replicate n None) = Redact ext input path redacts"
    unfolding Redact_def b ..
  have d: "buildAdditionalRedactors ext path (replicate n None) = Inr []"
    by (simp add: a present_replicate_None)
  from a [of redacts] d b c show ?thesis by blast
qed

theorem buildAdditionalRedactors_skips_nil_witness:
  "buildAdditionalRedactors stub ''a.log'' [None, Some anonymous_rule, None, Some any_file_rule] =
     Inr [literalRedactor ''hunter2'' ''a.log'' ''unnamed-1.0-literal'',
          YamlRedactor ''spec.token'' ''a.log'' ''unnamed-1.0-yaml'',
          literalRedactor ''hunter2'' ''a.log'' ''everywhere-0''] \<and>
   present 0 [None, Some anonymous_rule, None, Some any_file_rule] =
     [(1, anonymous_rule), (3, any_file_rule)] \<and>
   buildAdditionalRedactors stub ''a.log'' [None, None] = Inr []"
proof -
  have e: "buildAdditionalRedactors stub ''a.log''
      [None, Some anonymous_rule, None, Some any_file_rule] =
      Inr [literalRedactor ''hunter2'' ''a.log'' ''unnamed-1.0-literal'',
           YamlRedactor ''spec.token'' ''a.log'' ''unnamed-1.0-yaml'',
           literalRedactor ''hunter2'' ''a.log'' ''everywhere-0'']"
    by (simp add: buildAdditionalRedactors_def redact_body_def redactMatchesPath_def
        literalString_def NewYamlRedactor_def anonymous_rule_def any_file_rule_def
        redactorName_def fmt_d_def decimal_digits)
  have r: "replicate 2 (None :: Redact_rule option) = [None, None]"
    by (simp add: numeral_2_eq_2)
  from buildAdditionalRedactors_skips_nil [of stub "''a.log''"
      "[None, Some anonymous_rule, None, Some any_file_rule]" 2 "''''"] e
  show ?thesis by (simp add: r)
qed

end
